theory Spec2Isabelle
  imports Complex_Main "HOL-Library.Char_ord" "HOL-Library.List_Lexorder"
begin

section \<open>Persistence layer (models.py)\<close>

text \<open>
  A calendar date is the triple (year, month, day) of Python's \<open>datetime.date\<close>; a
  datetime adds the wall-clock fields. The application reads its clock in the zone
  \<open>APP_TZ = ZoneInfo("Asia/Kolkata")\<close>; the values below are those wall-clock readings.
\<close>

type_synonym date = "nat \<times> nat \<times> nat"

record datetime =
  dt_date :: date
  hour :: nat
  minute :: nat
  second :: nat
  microsecond :: nat

text \<open>The tables \<open>students\<close> and \<open>attendance\<close>. Nullable columns are options.\<close>

record student =
  s_id :: int
  roll_no :: string
  name :: string
  email :: "string option"
  klass :: "string option"
  section_label :: "string option"
  image_path :: "string option"

record attendance =
  a_id :: int
  student_id :: int
  day :: date
  status :: string
  timestamp :: "datetime option"

record database =
  students :: "student list"
  attendance_rows :: "attendance list"

datatype error =
    MultipleResultsFound
  | IntegrityError
  | AttributeError
  | BadRequestKeyError
  | ValueError
  | FileExistsError

text \<open>
  What a session does, in order: the rows handed to \<open>session.add\<close> and the calls of
  \<open>session.commit\<close>.
\<close>

datatype event = AddAttendance attendance | AddStudent student | Commit

text \<open>
  A session (\<open>SessionLocal()\<close>): the database as last committed, the database as the
  open transaction sees it (flushed changes included), and the calls made so far.
  Leaving the \<open>with\<close> block closes the session, which drops what was not committed.
\<close>

record session =
  committed :: database
  working :: database
  events :: "event list"

definition open_session :: "database \<Rightarrow> session" where
  "open_session db = \<lparr>committed = db, working = db, events = []\<rparr>"

definition commit :: "session \<Rightarrow> session" where
  "commit s = s\<lparr>committed := working s, events := events s @ [Commit]\<rparr>"

text \<open>\<open>Query.one_or_none()\<close>: raises when more than one row matches.\<close>

fun one_or_none :: "'a list \<Rightarrow> error + 'a option" where
  "one_or_none [] = Inr None"
| "one_or_none [x] = Inr (Some x)"
| "one_or_none (x # y # zs) = Inl MultipleResultsFound"

text \<open>\<open>session.query(Attendance).filter_by(student_id=sid, day=d)\<close>\<close>

definition query_attendance :: "database \<Rightarrow> int \<Rightarrow> date \<Rightarrow> attendance list" where
  "query_attendance db sid d =
     filter (\<lambda>a. student_id a = sid \<and> day a = d) (attendance_rows db)"

text \<open>
  An integer primary key without AUTOINCREMENT: SQLite gives a new row the largest key
  in the table plus one, and 1 in an empty table.
\<close>

definition next_id :: "int list \<Rightarrow> int" where
  "next_id ids = (case ids of [] \<Rightarrow> 1 | i # js \<Rightarrow> fold max js i + 1)"

text \<open>
  \<open>session.add(Attendance(student_id=sid, day=d, status=st))\<close> followed by the flush
  that the next query or commit triggers: the INSERT. The constraint \<open>uq_student_day\<close>
  makes it fail with IntegrityError when the pair is already there. The model inserts
  at the call of \<open>add\<close>; the exception reaches the caller either way.
\<close>

definition add_attendance ::
    "session \<Rightarrow> int \<Rightarrow> date \<Rightarrow> string \<Rightarrow> error + (attendance \<times> session)" where
  "add_attendance s sid d st =
     (let db = working s;
          row = \<lparr>a_id = next_id (map a_id (attendance_rows db)), student_id = sid,
                 day = d, status = st, timestamp = None\<rparr>
      in if query_attendance db sid d \<noteq> [] then Inl IntegrityError
         else Inr (row, s\<lparr>working := db\<lparr>attendance_rows := attendance_rows db @ [row]\<rparr>,
                           events := events s @ [AddAttendance row]\<rparr>))"

text \<open>
  \<open>ensure_day_rows(session, the_day)\<close>: the loop over \<open>session.query(Student).all()\<close>,
  then the single commit.
\<close>

fun ensure_rows_loop :: "student list \<Rightarrow> date \<Rightarrow> session \<Rightarrow> error + session" where
  "ensure_rows_loop [] the_day s = Inr s"
| "ensure_rows_loop (st # sts) the_day s =
     (case one_or_none (query_attendance (working s) (s_id st) the_day) of
        Inl e \<Rightarrow> Inl e
      | Inr (Some ex) \<Rightarrow> ensure_rows_loop sts the_day s
      | Inr None \<Rightarrow>
          (case add_attendance s (s_id st) the_day ''Absent'' of
             Inl e \<Rightarrow> Inl e
           | Inr (row, s') \<Rightarrow> ensure_rows_loop sts the_day s'))"

definition ensure_day_rows :: "session \<Rightarrow> date \<Rightarrow> error + session" where
  "ensure_day_rows s the_day =
     (case ensure_rows_loop (students (working s)) the_day s of
        Inl e \<Rightarrow> Inl e
      | Inr s' \<Rightarrow> Inr (commit s'))"

text \<open>The constraint \<open>uq_student_day\<close> of the attendance table.\<close>

definition uq_student_day :: "database \<Rightarrow> bool" where
  "uq_student_day db = distinct (map (\<lambda>a. (student_id a, day a)) (attendance_rows db))"

text \<open>The rows a run of the maintenance routine has to add: one per student without a row
  for the day, in the order of the student query, each student once.\<close>

fun missing_rows :: "student list \<Rightarrow> date \<Rightarrow> attendance list \<Rightarrow> attendance list" where
  "missing_rows [] d rows = []"
| "missing_rows (st # sts) d rows =
     (if filter (\<lambda>a. student_id a = s_id st \<and> day a = d) rows \<noteq> [] then missing_rows sts d rows
      else (let row = \<lparr>a_id = next_id (map a_id rows), student_id = s_id st, day = d,
                        status = ''Absent'', timestamp = None\<rparr>
            in row # missing_rows sts d (rows @ [row])))"


section \<open>Strings and formatting\<close>

text \<open>
  A string is a list of characters, each standing for the code point of its number, 0
  to 255; Python strings with a code point above 255 have no counterpart here.

  \<open>str.strip()\<close>: among these code points \<open>str.isspace\<close> holds for tab to carriage
  return (9 to 13), the four separators 28 to 31, the space, the next-line control 133
  and the no-break space 160.
\<close>

definition isspace :: "char \<Rightarrow> bool" where
  "isspace c = (let n = (of_char c :: nat)
                in (9 \<le> n \<and> n \<le> 13) \<or> (28 \<le> n \<and> n \<le> 32) \<or> n = 133 \<or> n = 160)"

definition strip :: "string \<Rightarrow> string" where
  "strip s = rev (dropWhile isspace (rev (dropWhile isspace s)))"

definition digit_char :: "nat \<Rightarrow> char" where
  "digit_char n = ''0123456789'' ! n"

fun str_nat :: "nat \<Rightarrow> string" where
  "str_nat n = (if n < 10 then [digit_char n] else str_nat (n div 10) @ [digit_char (n mod 10)])"

declare str_nat.simps [simp del]

definition str_int :: "int \<Rightarrow> string" where
  "str_int i = (if i < 0 then CHR ''-'' # str_nat (nat (- i)) else str_nat (nat i))"

text \<open>The format specifications \<open>02d\<close>, \<open>03d\<close> and \<open>04d\<close> on a number that is not negative.\<close>

definition zero_pad :: "nat \<Rightarrow> nat \<Rightarrow> string" where
  "zero_pad w n = replicate (w - length (str_nat n)) CHR ''0'' @ str_nat n"

text \<open>\<open>strftime('%H:%M:%S')\<close> of a datetime.\<close>

definition strftime_HMS :: "datetime \<Rightarrow> string" where
  "strftime_HMS t = zero_pad 2 (hour t) @ '':'' @ zero_pad 2 (minute t) @ '':'' @ zero_pad 2 (second t)"

text \<open>
  \<open>str(d)\<close> of a date, its ISO form; \<open>strftime('%Y-%m-%d')\<close> gives the same text for
  the years from 1000 on.
\<close>

definition isoformat :: "date \<Rightarrow> string" where
  "isoformat d = (case d of (y, m, dd) \<Rightarrow> zero_pad 4 y @ ''-'' @ zero_pad 2 m @ ''-'' @ zero_pad 2 dd)"

text \<open>
  \<open>str.lower()\<close>: the capital letters are 65 to 90 and, in the upper half, 192 to 222
  without the multiplication sign 215; each has its small letter 32 further on.
  Then \<open>str.endswith\<close>.
\<close>

definition lower_char :: "char \<Rightarrow> char" where
  "lower_char c = (let n = (of_char c :: nat)
                   in if (65 \<le> n \<and> n \<le> 90) \<or> (192 \<le> n \<and> n \<le> 222 \<and> n \<noteq> 215)
                      then char_of (n + 32) else c)"

definition lower :: "string \<Rightarrow> string" where
  "lower s = map lower_char s"

definition endswith :: "string \<Rightarrow> string \<Rightarrow> bool" where
  "endswith s suf = (length suf \<le> length s \<and> drop (length s - length suf) s = suf)"

text \<open>
  \<open>int(s)\<close>: the white space it drops at both ends is tab to carriage return, the
  space, and the two spaces of the upper half, 133 and 160 (not the separators 28 to
  31, which \<open>strip\<close> drops); a sign may lead, and the digits 0 to 9 may be grouped by
  single underscores. Anything else raises ValueError, here \<open>None\<close>.
\<close>

definition int_isspace :: "char \<Rightarrow> bool" where
  "int_isspace c = (let n = (of_char c :: nat)
                    in (9 \<le> n \<and> n \<le> 13) \<or> n = 32 \<or> n = 133 \<or> n = 160)"

definition is_digit :: "char \<Rightarrow> bool" where
  "is_digit c = (let n = (of_char c :: nat) in 48 \<le> n \<and> n \<le> 57)"

fun int_digits :: "string \<Rightarrow> bool \<Rightarrow> nat \<Rightarrow> nat option" where
  "int_digits [] prev acc = (if prev then Some acc else None)"
| "int_digits (c # cs) prev acc =
     (if is_digit c then int_digits cs True (10 * acc + (of_char c - 48))
      else if c = CHR ''_'' \<and> prev then int_digits cs False acc
      else None)"

definition py_int :: "string \<Rightarrow> int option" where
  "py_int s =
     (case rev (dropWhile int_isspace (rev (dropWhile int_isspace s))) of
        [] \<Rightarrow> None
      | c # cs \<Rightarrow>
          if c = CHR ''-'' then map_option (\<lambda>n. - int n) (int_digits cs False 0)
          else if c = CHR ''+'' then map_option int (int_digits cs False 0)
          else map_option int (int_digits (c # cs) False 0))"

section \<open>Face recognition engine (face_utils.py)\<close>

text \<open>
  The directories and files of the data directory, relative to the installation.
  An entry of \<open>FACES_DIR\<close> is a plain file or a directory; a file of such a directory
  carries what \<open>cv2.imread\<close> gives for it, \<open>None\<close> when it does not decode.
\<close>

definition DATA_DIR :: string where
  "DATA_DIR = ''data''"

definition FACES_DIR :: string where
  "FACES_DIR = DATA_DIR @ ''/faces''"

definition EXPORTS_DIR :: string where
  "EXPORTS_DIR = DATA_DIR @ ''/exports''"

datatype 'img entry = File | Dir "(string \<times> 'img option) list"

text \<open>
  The engine's state: the content of \<open>FACES_DIR\<close>, the model file at \<open>MODEL_PATH\<close>
  (absent, or the artifact last saved) and the state of the global \<open>RECOGNIZER\<close>.
  A trained recognizer is represented by the images and labels it was trained on.
\<close>

type_synonym 'img trained = "'img list \<times> int list"

record 'img engine =
  faces_dir :: "(string \<times> 'img entry) list"
  model_file :: "'img trained option"
  recognizer :: "'img trained option"

text \<open>
  One \<open>cap.read()\<close> of the camera together with the \<open>cv2.waitKey(1)\<close> that follows it:
  no frame, or a frame with the crops of the faces \<open>_detect_face\<close> finds in it (each
  already cut out and resized to 200 by 200) and whether the key q is down. The camera
  of one request is the sequence of its reads.
\<close>

datatype 'img read = NoFrame | Frame "'img list" bool

type_synonym 'img camera = "nat \<Rightarrow> 'img read"

subsection \<open>capture_samples\<close>

definition sample_name :: "int \<Rightarrow> nat \<Rightarrow> string" where
  "sample_name sid count = str_int sid @ ''_'' @ zero_pad 3 count @ ''.png''"

text \<open>
  The \<open>for\<close> loop over the faces of one frame. The state is \<open>count\<close>,
  \<open>preview_path\<close> and the files written by \<open>cv2.imwrite\<close> so far, in order.
\<close>

type_synonym 'img capture_state = "nat \<times> string option \<times> (string \<times> 'img) list"

fun save_faces :: "string \<Rightarrow> int \<Rightarrow> 'img list \<Rightarrow> 'img capture_state \<Rightarrow> 'img capture_state" where
  "save_faces folder sid [] st = st"
| "save_faces folder sid (roi # faces) (count, preview_path, written) =
     (let filepath = folder @ ''/'' @ sample_name sid count
      in save_faces folder sid faces
           (count + 1, Some filepath, written @ [(sample_name sid count, roi)]))"

text \<open>The \<open>while count < samples\<close> loop; \<open>None\<close> when it never ends.\<close>

partial_function (option) capture_loop ::
    "string \<Rightarrow> int \<Rightarrow> int \<Rightarrow> 'img camera \<Rightarrow> nat \<Rightarrow> 'img capture_state \<Rightarrow> 'img capture_state option" where
  "capture_loop folder sid samples cam i st =
     (if int (fst st) < samples then
        (case cam i of
           NoFrame \<Rightarrow> Some st
         | Frame faces q \<Rightarrow>
             (let st' = save_faces folder sid faces st
              in if q then Some st' else capture_loop folder sid samples cam (Suc i) st'))
      else Some st)"

text \<open>Writing a file into a directory listing: an existing name is overwritten.\<close>

fun put_file :: "string \<Rightarrow> 'img \<Rightarrow> (string \<times> 'img option) list \<Rightarrow> (string \<times> 'img option) list" where
  "put_file n img [] = [(n, Some img)]"
| "put_file n img ((m, c) # fs) =
     (if m = n then (m, Some img) # fs else (m, c) # put_file n img fs)"

fun put_files :: "(string \<times> 'img) list \<Rightarrow> (string \<times> 'img option) list \<Rightarrow> (string \<times> 'img option) list" where
  "put_files [] fs = fs"
| "put_files ((n, img) # ws) fs = put_files ws (put_file n img fs)"

fun set_dir :: "string \<Rightarrow> (string \<times> 'img option) list \<Rightarrow> (string \<times> 'img entry) list \<Rightarrow> (string \<times> 'img entry) list" where
  "set_dir d fs [] = [(d, Dir fs)]"
| "set_dir d fs ((m, e) # es) = (if m = d then (m, Dir fs) # es else (m, e) # set_dir d fs es)"

text \<open>
  \<open>capture_samples(student_id, samples)\<close>. \<open>os.makedirs(folder, exist_ok=True)\<close> raises
  when the name is taken by a plain file. The result is the preview path (or the empty
  string) and the engine with the files written.
\<close>

definition capture_samples ::
    "'img engine \<Rightarrow> 'img camera \<Rightarrow> int \<Rightarrow> int \<Rightarrow> ((error + string) \<times> 'img engine) option" where
  "capture_samples e cam sid samples =
     (let dirname = str_int sid;
          folder = FACES_DIR @ ''/'' @ dirname
      in case map_of (faces_dir e) dirname of
           Some File \<Rightarrow> Some (Inl FileExistsError, e)
         | other \<Rightarrow>
             (let old = (case other of Some (Dir fs) \<Rightarrow> fs | _ \<Rightarrow> [])
              in case capture_loop folder sid samples cam 0 (0, None, []) of
                   None \<Rightarrow> None
                 | Some (count, preview_path, written) \<Rightarrow>
                     Some (Inr (case preview_path of None \<Rightarrow> [] | Some p \<Rightarrow> p),
                           e\<lparr>faces_dir := set_dir dirname (put_files written old) (faces_dir e)\<rparr>)))"

subsection \<open>Training\<close>

definition has_image_ext :: "string \<Rightarrow> bool" where
  "has_image_ext f = (endswith (lower f) ''.png'' \<or> endswith (lower f) ''.jpg'' \<or> endswith (lower f) ''.jpeg'')"

text \<open>\<open>_load_dataset\<close>: the inner loop over the files of one directory, then the outer
  loop over the entries of \<open>FACES_DIR\<close>. \<open>int(sid)\<close> is evaluated for each image loaded.\<close>

fun load_dir :: "string \<Rightarrow> (string \<times> 'img option) list \<Rightarrow> 'img trained \<Rightarrow> error + 'img trained" where
  "load_dir sid [] acc = Inr acc"
| "load_dir sid ((f, content) # fs) (images, labels) =
     (if has_image_ext f then
        (case content of
           None \<Rightarrow> load_dir sid fs (images, labels)
         | Some img \<Rightarrow>
             (case py_int sid of
                None \<Rightarrow> Inl ValueError
              | Some l \<Rightarrow> load_dir sid fs (images @ [img], labels @ [l])))
      else load_dir sid fs (images, labels))"

fun load_entries :: "(string \<times> 'img entry) list \<Rightarrow> 'img trained \<Rightarrow> error + 'img trained" where
  "load_entries [] acc = Inr acc"
| "load_entries ((sid, File) # es) acc = load_entries es acc"
| "load_entries ((sid, Dir fs) # es) acc =
     (case load_dir sid fs acc of Inl err \<Rightarrow> Inl err | Inr acc' \<Rightarrow> load_entries es acc')"

definition load_dataset :: "'img engine \<Rightarrow> error + 'img trained" where
  "load_dataset e = load_entries (faces_dir e) ([], [])"

text \<open>
  \<open>train_or_update_model()\<close>: \<open>RECOGNIZER.train\<close> replaces the recognizer's state by
  one trained on the whole set, \<open>RECOGNIZER.save\<close> writes it to the model file.
\<close>

definition train_or_update_model :: "'img engine \<Rightarrow> (error + bool) \<times> 'img engine" where
  "train_or_update_model e =
     (case load_dataset e of
        Inl err \<Rightarrow> (Inl err, e)
      | Inr (images, labels) \<Rightarrow>
          if images = [] then (Inr False, e)
          else (Inr True, e\<lparr>recognizer := Some (images, labels),
                            model_file := Some (images, labels)\<rparr>))"

definition ensure_model_loaded :: "'img engine \<Rightarrow> bool \<times> 'img engine" where
  "ensure_model_loaded e =
     (case model_file e of
        None \<Rightarrow> (False, e)
      | Some m \<Rightarrow> (True, e\<lparr>recognizer := Some m\<rparr>))"

subsection \<open>recognize_once\<close>

text \<open>
  \<open>RECOGNIZER.predict\<close> is the library's: a parameter \<open>predict\<close> that maps the
  recognizer's state and a crop to a label and a confidence. The \<open>for\<close> loop over the
  faces of a frame keeps \<open>predicted\<close> and \<open>best_conf\<close>.
\<close>

fun scan_faces ::
    "('img \<Rightarrow> int \<times> real) \<Rightarrow> real \<Rightarrow> 'img list \<Rightarrow> int option \<times> real \<Rightarrow> int option \<times> real" where
  "scan_faces pred threshold [] acc = acc"
| "scan_faces pred threshold (roi # faces) (predicted, best_conf) =
     (case pred roi of (label, confidence) \<Rightarrow>
        if confidence < best_conf \<and> confidence < threshold
        then scan_faces pred threshold faces (Some label, confidence)
        else scan_faces pred threshold faces (predicted, best_conf))"

text \<open>The \<open>while True\<close> loop; \<open>None\<close> when it never ends.\<close>

partial_function (option) recognize_loop ::
    "('img \<Rightarrow> int \<times> real) \<Rightarrow> real \<Rightarrow> 'img camera \<Rightarrow> nat \<Rightarrow> int option \<times> real \<Rightarrow> int option option" where
  "recognize_loop pred threshold cam i acc =
     (case cam i of
        NoFrame \<Rightarrow> Some (fst acc)
      | Frame faces q \<Rightarrow>
          (let acc' = scan_faces pred threshold faces acc
           in if q then Some (fst acc') else recognize_loop pred threshold cam (Suc i) acc'))"

definition recognize_once ::
    "('img trained option \<Rightarrow> 'img \<Rightarrow> int \<times> real) \<Rightarrow> real \<Rightarrow> 'img engine \<Rightarrow> 'img camera \<Rightarrow>
       ((error + int option) \<times> 'img engine) option" where
  "recognize_once predict threshold e cam =
     (case ensure_model_loaded e of (loaded, e1) \<Rightarrow>
        (case (if loaded then (Inr True, e1) else train_or_update_model e1) of
           (Inl err, e2) \<Rightarrow> Some (Inl err, e2)
         | (Inr False, e2) \<Rightarrow> Some (Inr None, e2)
         | (Inr True, e2) \<Rightarrow>
             (case recognize_loop (predict (recognizer e2)) threshold cam 0 (None, 999) of
                None \<Rightarrow> None
              | Some predicted \<Rightarrow> Some (Inr predicted, e2))))"

section \<open>Web application (app.py)\<close>

text \<open>
  Every route is behind \<open>login_required\<close>; the handlers below are those of a logged-in
  operator. A handler's result is what it returns or raises, the notices it flashes,
  the database as committed when its session is closed, and the session's calls.
\<close>

datatype json = JBool bool | JInt int | JStr string | JList "json list" | JObj "(string \<times> json) list"

datatype response =
    Redirect string
  | Render string "(string \<times> json) list"
  | Jsonify json nat
  | SendFile string "string list list"

record request =
  http_method :: string
  form :: "string \<Rightarrow> string option"

record web_result =
  outcome :: "error + response"
  flashes :: "(string \<times> string) list"
  db_after :: database
  session_events :: "event list"

text \<open>Leaving the \<open>with SessionLocal() as s\<close> block, by a return or by an exception.\<close>

definition leave :: "error + response \<Rightarrow> (string \<times> string) list \<Rightarrow> session \<Rightarrow> web_result" where
  "leave r fl s = \<lparr>outcome = r, flashes = fl, db_after = committed s, session_events = events s\<rparr>"

text \<open>A handler that ends without having opened a session.\<close>

definition no_session :: "error + response \<Rightarrow> database \<Rightarrow> web_result" where
  "no_session r db = \<lparr>outcome = r, flashes = [], db_after = db, session_events = []\<rparr>"

text \<open>\<open>s.get(Student, sid)\<close>: the row with that primary key, if any.\<close>

definition get_student :: "database \<Rightarrow> int \<Rightarrow> student option" where
  "get_student db sid = find (\<lambda>st. s_id st = sid) (students db)"

definition ts_text :: "datetime option \<Rightarrow> string" where
  "ts_text t = (case t of None \<Rightarrow> [] | Some x \<Rightarrow> strftime_HMS x)"

text \<open>
  The query shared by the attendance views: attendance joined with its student, for one
  day, ordered by roll number.
\<close>

definition attendance_join :: "database \<Rightarrow> date \<Rightarrow> (attendance \<times> student) list" where
  "attendance_join db d =
     sort_key (\<lambda>p. roll_no (snd p))
       (concat (map (\<lambda>att. map (Pair att) (filter (\<lambda>stu. student_id att = s_id stu) (students db)))
                    (filter (\<lambda>att. day att = d) (attendance_rows db))))"

definition dashboard :: "date \<Rightarrow> database \<Rightarrow> web_result" where
  "dashboard today db =
     (let s = open_session db
      in case ensure_day_rows s today of
           Inl err \<Rightarrow> leave (Inl err) [] s
         | Inr s1 \<Rightarrow>
             (let total = length (students (working s1));
                  present = length (filter (\<lambda>a. day a = today \<and> status a = ''Present'')
                                      (attendance_rows (working s1)))
              in leave (Inr (Render ''dashboard.html''
                              [(''total'', JInt (int total)), (''present'', JInt (int present)),
                               (''day'', JStr (isoformat today))])) [] s1))"

definition attendance_page :: "date \<Rightarrow> database \<Rightarrow> web_result" where
  "attendance_page today db =
     (let s = open_session db
      in case ensure_day_rows s today of
           Inl err \<Rightarrow> leave (Inl err) [] s
         | Inr s1 \<Rightarrow>
             (let table = map (\<lambda>(att, stu).
                             JObj [(''roll_no'', JStr (roll_no stu)), (''name'', JStr (name stu)),
                                   (''status'', JStr (status att)),
                                   (''timestamp'', JStr (ts_text (timestamp att)))])
                            (attendance_join (working s1) today)
              in leave (Inr (Render ''attendance.html''
                              [(''today'', JStr (isoformat today)), (''table'', JList table)])) [] s1))"

definition api_attendance_today :: "date \<Rightarrow> database \<Rightarrow> web_result" where
  "api_attendance_today today db =
     (let s = open_session db;
          rows = attendance_join (working s) today;
          present = length (filter (\<lambda>(att, stu). status att = ''Present'') rows);
          data = map (\<lambda>(att, stu).
                    JObj [(''Roll No'', JStr (roll_no stu)), (''Name'', JStr (name stu)),
                          (''Status'', JStr (status att)),
                          (''Timestamp'', JStr (ts_text (timestamp att)))]) rows
      in leave (Inr (Jsonify (JObj [(''total'', JInt (int (length data))),
                                    (''present'', JInt (int present)),
                                    (''absent'', JInt (int (length data) - int present)),
                                    (''rows'', JList data)]) 200)) [] s)"

text \<open>
  The two exports of a day. The file sent is represented by its path and the lines of
  its table (roll number, name, status, time), in order; the page layout of the PDF is
  left out.
\<close>

definition export_lines :: "database \<Rightarrow> date \<Rightarrow> string list list" where
  "export_lines db d =
     map (\<lambda>(att, stu). [roll_no stu, name stu, status att, ts_text (timestamp att)])
         (attendance_join db d)"

definition download_attendance_for_date :: "date \<Rightarrow> database \<Rightarrow> web_result" where
  "download_attendance_for_date d db =
     (let s = open_session db
      in leave (Inr (SendFile (EXPORTS_DIR @ ''/attendance_'' @ isoformat d @ ''.xlsx'')
                              (export_lines (working s) d))) [] s)"

definition download_attendance_pdf :: "date \<Rightarrow> database \<Rightarrow> web_result" where
  "download_attendance_pdf d db =
     (let s = open_session db
      in leave (Inr (SendFile (EXPORTS_DIR @ ''/attendance_'' @ isoformat d @ ''.pdf'')
                              (export_lines (working s) d))) [] s)"

subsection \<open>Students\<close>

text \<open>
  \<open>s.add(Student(...))\<close> with the INSERT of the flush: the key is assigned, and the
  unique roll number is checked by the database.
\<close>

definition add_student ::
    "session \<Rightarrow> string \<Rightarrow> string \<Rightarrow> string \<Rightarrow> string \<Rightarrow> string \<Rightarrow> error + (student \<times> session)" where
  "add_student s roll nm em kl sec =
     (let db = working s;
          st = \<lparr>s_id = next_id (map s_id (students db)), roll_no = roll, name = nm,
                email = Some em, klass = Some kl, section_label = Some sec, image_path = None\<rparr>
      in if filter (\<lambda>x. roll_no x = roll) (students db) \<noteq> [] then Inl IntegrityError
         else Inr (st, s\<lparr>working := db\<lparr>students := students db @ [st]\<rparr>,
                          events := events s @ [AddStudent st]\<rparr>))"

text \<open>
  The UPDATE that the flush emits for a student object whose attributes were assigned;
  the database rejects a roll number that another row holds.
\<close>

definition flush_student :: "session \<Rightarrow> student \<Rightarrow> error + session" where
  "flush_student s st =
     (let db = working s
      in if filter (\<lambda>x. s_id x \<noteq> s_id st \<and> roll_no x = roll_no st) (students db) \<noteq> []
         then Inl IntegrityError
         else Inr (s\<lparr>working := db\<lparr>students :=
                        map (\<lambda>x. if s_id x = s_id st then st else x) (students db)\<rparr>\<rparr>))"

definition form_get :: "request \<Rightarrow> string \<Rightarrow> string \<Rightarrow> string" where
  "form_get req k dflt = (case form req k of None \<Rightarrow> dflt | Some v \<Rightarrow> v)"

definition register ::
    "request \<Rightarrow> 'img engine \<Rightarrow> 'img camera \<Rightarrow> database \<Rightarrow> (web_result \<times> 'img engine) option" where
  "register req e cam db =
     (if http_method req = ''POST'' then
        (case form req ''roll_no'' of
           None \<Rightarrow> Some (no_session (Inl BadRequestKeyError) db, e)
         | Some r \<Rightarrow>
        (case form req ''name'' of
           None \<Rightarrow> Some (no_session (Inl BadRequestKeyError) db, e)
         | Some n \<Rightarrow>
        (let roll = strip r;
             nm = strip n;
             em = strip (form_get req ''email'' []);
             kl = strip (form_get req ''klass'' []);
             sec = strip (form_get req ''section'' []);
             s = open_session db
         in case one_or_none (filter (\<lambda>x. roll_no x = roll) (students (working s))) of
              Inl err \<Rightarrow> Some (leave (Inl err) [] s, e)
            | Inr (Some ex) \<Rightarrow>
                Some (leave (Inr (Redirect ''register'')) [(''Roll No already exists'', ''warning'')] s, e)
            | Inr None \<Rightarrow>
                (case add_student s roll nm em kl sec of
                   Inl err \<Rightarrow> Some (leave (Inl err) [] s, e)
                 | Inr (st, s1) \<Rightarrow>
                     (let s2 = commit s1
                      in case capture_samples e cam (s_id st) 20 of
                           None \<Rightarrow> None
                         | Some (Inl err, e1) \<Rightarrow> Some (leave (Inl err) [] s2, e1)
                         | Some (Inr preview, e1) \<Rightarrow>
                             (case (if preview \<noteq> [] then
                                      (case flush_student s2 (st\<lparr>image_path := Some preview\<rparr>) of
                                         Inl err \<Rightarrow> Inl err
                                       | Inr s' \<Rightarrow> Inr (commit s'))
                                    else Inr s2) of
                                Inl err \<Rightarrow> Some (leave (Inl err) [] s2, e1)
                              | Inr s3 \<Rightarrow>
                                  (case train_or_update_model e1 of
                                     (Inl err, e2) \<Rightarrow> Some (leave (Inl err) [] s3, e2)
                                   | (Inr trained, e2) \<Rightarrow>
                                       Some (leave (Inr (Redirect ''students''))
                                               [(if trained then ''Student registered and model updated''
                                                 else ''Student registered (insufficient data to train yet)'',
                                                 ''success'')] s3, e2))))))))
      else Some (no_session (Inr (Render ''register.html'' [])) db, e))"

definition student_json :: "student \<Rightarrow> json" where
  "student_json st =
     JObj [(''id'', JInt (s_id st)), (''roll_no'', JStr (roll_no st)), (''name'', JStr (name st))]"

definition student_edit ::
    "int \<Rightarrow> request \<Rightarrow> 'img engine \<Rightarrow> 'img camera \<Rightarrow> database \<Rightarrow> (web_result \<times> 'img engine) option" where
  "student_edit sid req e cam db =
     (let s = open_session db
      in case get_student (working s) sid of
           None \<Rightarrow> Some (leave (Inr (Redirect ''students'')) [(''Student not found'', ''danger'')] s, e)
         | Some st \<Rightarrow>
             if http_method req = ''POST'' then
               (case form req ''roll_no'' of
                  None \<Rightarrow> Some (leave (Inl BadRequestKeyError) [] s, e)
                | Some r \<Rightarrow>
               (case form req ''name'' of
                  None \<Rightarrow> Some (leave (Inl BadRequestKeyError) [] s, e)
                | Some n \<Rightarrow>
               (let st1 = st\<lparr>roll_no := strip r, name := strip n,
                             email := Some (strip (form_get req ''email'' [])),
                             klass := Some (strip (form_get req ''klass'' [])),
                             section_label := Some (strip (form_get req ''section'' []))\<rparr>
                in case (if form req ''recapture'' = Some ''on'' then
                           (case capture_samples e cam (s_id st) 15 of
                              None \<Rightarrow> None
                            | Some (Inl err, e1) \<Rightarrow> Some (Inl err, e1)
                            | Some (Inr preview, e1) \<Rightarrow>
                                Some (Inr (if preview \<noteq> [] then st1\<lparr>image_path := Some preview\<rparr> else st1), e1))
                         else Some (Inr st1, e)) of
                     None \<Rightarrow> None
                   | Some (Inl err, e1) \<Rightarrow> Some (leave (Inl err) [] s, e1)
                   | Some (Inr st2, e1) \<Rightarrow>
                       (case flush_student s st2 of
                          Inl err \<Rightarrow> Some (leave (Inl err) [] s, e1)
                        | Inr s1 \<Rightarrow>
                            (let s2 = commit s1
                             in case train_or_update_model e1 of
                                  (Inl err, e2) \<Rightarrow> Some (leave (Inl err) [] s2, e2)
                                | (Inr trained, e2) \<Rightarrow>
                                    Some (leave (Inr (Redirect ''students''))
                                            [(''Student updated'', ''success'')] s2, e2))))))
             else Some (leave (Inr (Render ''student_edit.html'' [(''st'', student_json st)])) [] s, e))"

subsection \<open>Marking attendance\<close>

text \<open>The assignments \<open>att.status = 'Present'; att.timestamp = now\<close> as the UPDATE of the
  row with the key of \<open>att\<close>.\<close>

definition set_present :: "session \<Rightarrow> int \<Rightarrow> datetime \<Rightarrow> session" where
  "set_present s aid now =
     s\<lparr>working := (working s)\<lparr>attendance_rows :=
          map (\<lambda>a. if a_id a = aid then a\<lparr>status := ''Present'', timestamp := Some now\<rparr> else a)
              (attendance_rows (working s))\<rparr>\<rparr>"

text \<open>
  The body of \<open>api_mark_attendance\<close> after a match: \<open>today\<close> and \<open>now\<close> are the two
  readings of the clock in \<open>APP_TZ\<close>.
\<close>

definition mark_present :: "int \<Rightarrow> date \<Rightarrow> datetime \<Rightarrow> database \<Rightarrow> web_result" where
  "mark_present sid today now db =
     (let s = open_session db
      in case one_or_none (query_attendance (working s) sid today) of
           Inl err \<Rightarrow> leave (Inl err) [] s
         | Inr found \<Rightarrow>
             (case (case found of
                      Some att \<Rightarrow> Inr (att, s)
                    | None \<Rightarrow>
                        (case add_attendance s sid today ''Absent'' of
                           Inl err \<Rightarrow> Inl err
                         | Inr (att, s') \<Rightarrow> Inr (att, commit s'))) of
                Inl err \<Rightarrow> leave (Inl err) [] s
              | Inr (att, s1) \<Rightarrow>
                  (let s2 = commit (set_present s1 (a_id att) now)
                   in case get_student (working s2) sid of
                        None \<Rightarrow> leave (Inl AttributeError) [] s2
                      | Some stu \<Rightarrow>
                          leave (Inr (Jsonify (JObj [(''ok'', JBool True),
                                                     (''roll_no'', JStr (roll_no stu)),
                                                     (''name'', JStr (name stu)),
                                                     (''time'', JStr (strftime_HMS now))]) 200)) [] s2)))"

definition api_mark_attendance ::
    "('img trained option \<Rightarrow> 'img \<Rightarrow> int \<times> real) \<Rightarrow> 'img engine \<Rightarrow> 'img camera \<Rightarrow>
       date \<Rightarrow> datetime \<Rightarrow> database \<Rightarrow> (web_result \<times> 'img engine) option" where
  "api_mark_attendance predict e cam today now db =
     (case recognize_once predict 70 e cam of
        None \<Rightarrow> None
      | Some (Inl err, e1) \<Rightarrow> Some (no_session (Inl err) db, e1)
      | Some (Inr None, e1) \<Rightarrow>
          Some (no_session (Inr (Jsonify (JObj [(''ok'', JBool False),
                                                (''msg'', JStr ''No confident face match'')]) 400)) db, e1)
      | Some (Inr (Some sid), e1) \<Rightarrow> Some (mark_present sid today now db, e1))"

section \<open>Notions used to state the properties\<close>

text \<open>
  Read \<open>n\<close> of a camera ends a loop over it when it yields no frame or the key q is
  down; \<open>first_stop cam n\<close> says that \<open>n\<close> is the first such read. The faces seen up
  to read \<open>n\<close> are those of the frames 0 to \<open>n\<close>, in order.
\<close>

fun faces_of :: "'img read \<Rightarrow> 'img list" where
  "faces_of NoFrame = []"
| "faces_of (Frame faces q) = faces"

fun stops :: "'img read \<Rightarrow> bool" where
  "stops NoFrame = True"
| "stops (Frame faces q) = q"

definition first_stop :: "'img camera \<Rightarrow> nat \<Rightarrow> bool" where
  "first_stop cam n = (stops (cam n) \<and> list_all (\<lambda>i. \<not> stops (cam i)) [0..<n])"

definition faces_seen :: "'img camera \<Rightarrow> nat \<Rightarrow> 'img list" where
  "faces_seen cam n = concat (map (\<lambda>i. faces_of (cam i)) [0..<Suc n])"

text \<open>
  The test of \<open>recognize_once\<close> on a detection while \<open>best_conf\<close> still has its
  initial value 999.0.
\<close>

definition accepted :: "real \<Rightarrow> real \<Rightarrow> bool" where
  "accepted threshold confidence = (confidence < 999 \<and> confidence < threshold)"

text \<open>
  The faces of the frames before read \<open>i\<close>, and the files that \<open>capture_samples\<close>
  writes for a sequence of crops: crop number \<open>k\<close> goes to the file named after \<open>k\<close>.
\<close>

definition faces_before :: "'img camera \<Rightarrow> nat \<Rightarrow> 'img list" where
  "faces_before cam i = concat (map (\<lambda>j. faces_of (cam j)) [0..<i])"

definition saved_files :: "int \<Rightarrow> 'img list \<Rightarrow> (string \<times> 'img) list" where
  "saved_files sid crops = map (\<lambda>(k, roi). (sample_name sid k, roi)) (enumerate 0 crops)"

definition preview_of :: "string \<Rightarrow> int \<Rightarrow> 'img list \<Rightarrow> string option" where
  "preview_of folder sid crops =
     (if crops = [] then None
      else Some (folder @ ''/'' @ fst (last (saved_files sid crops))))"

text \<open>The state of the capture loop once the crops \<open>crops\<close> have been saved.\<close>

definition state_of :: "string \<Rightarrow> int \<Rightarrow> 'img list \<Rightarrow> 'img capture_state" where
  "state_of folder sid crops = (length crops, preview_of folder sid crops, saved_files sid crops)"

text \<open>
  The samples of the dataset: in every directory of \<open>FACES_DIR\<close>, the files with an
  image extension that decode, each with the name of its directory. The full training
  set pairs each sample's image with the integer its directory is named by.
\<close>

definition dir_samples :: "(string \<times> 'img option) list \<Rightarrow> 'img list" where
  "dir_samples fs = List.map_filter (\<lambda>(f, c). if has_image_ext f then c else None) fs"

definition dataset_samples :: "'img engine \<Rightarrow> ('img \<times> string) list" where
  "dataset_samples e =
     concat (map (\<lambda>(sid, en). case en of File \<Rightarrow> [] | Dir fs \<Rightarrow> map (\<lambda>img. (img, sid)) (dir_samples fs))
                 (faces_dir e))"

definition full_set :: "'img engine \<Rightarrow> 'img trained" where
  "full_set e = (map fst (dataset_samples e), List.map_filter (\<lambda>(img, sid). py_int sid) (dataset_samples e))"

definition named_by_int :: "'img engine \<Rightarrow> bool" where
  "named_by_int e = list_all (\<lambda>(img, sid). py_int sid \<noteq> None) (dataset_samples e)"

text \<open>An attendance row once marked, and the invariant that a 'Present' row has a timestamp.\<close>

definition marked :: "datetime \<Rightarrow> attendance \<Rightarrow> attendance" where
  "marked now a = a\<lparr>status := ''Present'', timestamp := Some now\<rparr>"

definition present_has_timestamp :: "database \<Rightarrow> bool" where
  "present_has_timestamp db =
     list_all (\<lambda>a. status a \<noteq> ''Present'' \<or> timestamp a \<noteq> None) (attendance_rows db)"

text \<open>The primary key of the attendance table and the unique roll number of students.\<close>

definition pk_attendance :: "database \<Rightarrow> bool" where
  "pk_attendance db = distinct (map a_id (attendance_rows db))"

definition uq_roll_no :: "database \<Rightarrow> bool" where
  "uq_roll_no db = distinct (map roll_no (students db))"

text \<open>The success body of the mark-attendance API, with status 200.\<close>

definition ok_body :: "student \<Rightarrow> datetime \<Rightarrow> response" where
  "ok_body stu now = Jsonify (JObj [(''ok'', JBool True), (''roll_no'', JStr (roll_no stu)),
                                     (''name'', JStr (name stu)), (''time'', JStr (strftime_HMS now))]) 200"

text \<open>The number a string of decimal digits stands for, read from the left.\<close>

definition digits_value :: "nat \<Rightarrow> string \<Rightarrow> nat" where
  "digits_value acc cs = foldl (\<lambda>a c. 10 * a + (of_char c - 48)) acc cs"

section \<open>Example data\<close>

definition stu1 :: student where
  "stu1 = \<lparr>s_id = 1, roll_no = ''R1'', name = ''Asha'', email = None, klass = None,
           section_label = None, image_path = None\<rparr>"

definition stu2 :: student where
  "stu2 = \<lparr>s_id = 2, roll_no = ''R2'', name = ''Bala'', email = None, klass = None,
           section_label = None, image_path = None\<rparr>"

definition t0930 :: datetime where
  "t0930 = \<lparr>dt_date = (2024, 1, 5), hour = 9, minute = 30, second = 0, microsecond = 0\<rparr>"

text \<open>Two students; the first is marked present on 5 January 2024, the second has no row.\<close>

definition db0 :: database where
  "db0 = \<lparr>students = [stu1, stu2],
          attendance_rows = [\<lparr>a_id = 1, student_id = 1, day = (2024, 1, 5), status = ''Present'',
                              timestamp = Some t0930\<rparr>]\<rparr>"

text \<open>
  For the engine's examples a crop is represented by the label and confidence the
  recognizer gives for it, so that \<open>predict\<close> only reads them off.
\<close>

definition pred_id :: "(int \<times> real) trained option \<Rightarrow> int \<times> real \<Rightarrow> int \<times> real" where
  "pred_id m roi = roi"

definition eng_loaded :: "(int \<times> real) engine" where
  "eng_loaded = \<lparr>faces_dir = [], model_file = Some ([(1, 10)], [1]), recognizer = Some ([(1, 10)], [1])\<rparr>"

definition cam_three :: "(int \<times> real) camera" where
  "cam_three i = (if i = 0 then Frame [(1, 80), (2, 40), (3, 55)] True else NoFrame)"

text \<open>A camera that shows one face, of label 5 and a given confidence, and is stopped.\<close>

definition cam_conf :: "real \<Rightarrow> (int \<times> real) camera" where
  "cam_conf c i = Frame [(5, c)] True"

text \<open>A camera whose first frame shows two faces, and an engine with nothing stored.\<close>

definition cam_two :: "nat camera" where
  "cam_two i = (if i = 0 then Frame [11, 12] False else NoFrame)"

definition eng_empty :: "nat engine" where
  "eng_empty = \<lparr>faces_dir = [], model_file = None, recognizer = None\<rparr>"

text \<open>A faces directory with one stray file and one student directory of two entries,
  the second of which does not decode.\<close>

definition eng_one_sample :: "nat engine" where
  "eng_one_sample = \<lparr>faces_dir = [(''notes.txt'', File),
                                   (''3'', Dir [(''3_000.png'', Some 21), (''3_001.PNG'', None)])],
                      model_file = None, recognizer = None\<rparr>"

definition cam_dark :: "(int \<times> real) camera" where
  "cam_dark i = NoFrame"

definition cam_asha :: "(int \<times> real) camera" where
  "cam_asha i = Frame [(2, 41)] True"

definition t1015 :: datetime where
  "t1015 = \<lparr>dt_date = (2024, 1, 5), hour = 10, minute = 15, second = 7, microsecond = 250\<rparr>"

text \<open>The database \<open>db0\<close> after the day's rows were seeded: the second student is absent.\<close>

definition db_seeded :: database where
  "db_seeded = db0\<lparr>attendance_rows := attendance_rows db0 @
      [\<lparr>a_id = 2, student_id = 2, day = (2024, 1, 5), status = ''Absent'', timestamp = None\<rparr>]\<rparr>"

text \<open>A registration form that reuses the first student's roll number, padded with blanks,
  and an edit form that gives the second student the roll number of the first.\<close>

definition req_dup :: request where
  "req_dup = \<lparr>http_method = ''POST'',
              form = [''roll_no'' \<mapsto> '' R1 '', ''name'' \<mapsto> ''Chitra'']\<rparr>"

definition req_edit :: request where
  "req_edit = \<lparr>http_method = ''POST'',
               form = [''roll_no'' \<mapsto> ''R1'', ''name'' \<mapsto> ''Bala'']\<rparr>"

text \<open>One registered student and no attendance row yet.\<close>

definition db_fresh :: database where
  "db_fresh = \<lparr>students = [stu1], attendance_rows = []\<rparr>"

text \<open>
  The same registration with the roll number followed by a no-break space, and a faces
  directory whose only directory is named 3 followed by the separator 31.
\<close>

definition req_dup_nbsp :: request where
  "req_dup_nbsp = \<lparr>http_method = ''POST'',
                   form = [''roll_no'' \<mapsto> ''R1'' @ [CHR 0xA0], ''name'' \<mapsto> ''Chitra'']\<rparr>"

definition eng_separator :: "nat engine" where
  "eng_separator = \<lparr>faces_dir = [(''3'' @ [CHR 0x1F], Dir [(''3_000.png'', Some 21)])],
                     model_file = None, recognizer = None\<rparr>"

section \<open>The string functions on sample inputs\<close>

text \<open>
  White space of the upper half is stripped, as \<open>str.strip\<close> does; \<open>int\<close> accepts it
  around a number, but not the separators 28 to 31.
\<close>

lemma strip_examples:
  "strip (''R1'' @ [CHR 0xA0]) = ''R1''"
  "strip ([CHR 0x85, CHR 0x1F] @ ''R 1'' @ [CHR 0x1C, CHR 0x09]) = ''R 1''"
  "strip (''R1'' @ [CHR 0xA1]) = ''R1'' @ [CHR 0xA1]"
  by code_simp+

lemma py_int_examples:
  "py_int (''3'' @ [CHR 0x1F]) = None"
  "py_int (''3'' @ [CHR 0xA0]) = Some 3"
  "py_int ([CHR 0x85] @ '' -1_2 '') = Some (- 12)"
  "py_int ''1__2'' = None"
  by code_simp+

lemma lower_examples:
  "lower (''A.PnG'' @ [CHR 0xC9, CHR 0xD7]) = ''a.png'' @ [CHR 0xE9, CHR 0xD7]"
  by code_simp

section \<open>Day-row maintenance\<close>

lemma filter_key_le1:
  "distinct (map f xs) \<Longrightarrow> length (filter (\<lambda>a. f a = k) xs) \<le> 1"
  by (induction xs) (auto simp: image_iff filter_empty_conv)

lemma one_or_none_le1:
  "length xs \<le> 1 \<Longrightarrow> one_or_none xs = Inr (case xs of [] \<Rightarrow> None | x # _ \<Rightarrow> Some x)"
  by (cases xs rule: one_or_none.cases) auto

lemma query_le1:
  "uq_student_day db \<Longrightarrow> length (query_attendance db sid d) \<le> 1"
  using filter_key_le1 [of "\<lambda>a. (student_id a, day a)" "attendance_rows db" "(sid, d)"]
  by (simp add: uq_student_day_def query_attendance_def)

lemma uq_append_row:
  "uq_student_day db \<Longrightarrow> query_attendance db (student_id row) (day row) = [] \<Longrightarrow>
   uq_student_day (db\<lparr>attendance_rows := attendance_rows db @ [row]\<rparr>)"
  by (auto simp: uq_student_day_def query_attendance_def filter_empty_conv)

lemma ensure_rows_loop_result:
  "uq_student_day (working s) \<Longrightarrow>
   ensure_rows_loop sts d s =
     Inr (s\<lparr>working := (working s)\<lparr>attendance_rows :=
                attendance_rows (working s) @ missing_rows sts d (attendance_rows (working s))\<rparr>,
            events := events s @ map AddAttendance (missing_rows sts d (attendance_rows (working s)))\<rparr>)"
proof (induction sts arbitrary: s)
  case Nil
  then show ?case by simp
next
  case (Cons st sts)
  let ?q = "query_attendance (working s) (s_id st) d"
  have le: "length ?q \<le> 1" using Cons.prems by (rule query_le1)
  show ?case
  proof (cases ?q)
    case Nil
    define row where "row = \<lparr>a_id = next_id (map a_id (attendance_rows (working s))), student_id = s_id st,
                 day = d, status = ''Absent'', timestamp = None\<rparr>"
    define s' where "s' = s\<lparr>working := (working s)\<lparr>attendance_rows := attendance_rows (working s) @ [row]\<rparr>,
                           events := events s @ [AddAttendance row]\<rparr>"
    have add: "add_attendance s (s_id st) d ''Absent'' = Inr (row, s')"
      using Nil by (simp add: add_attendance_def Let_def row_def s'_def)
    have "uq_student_day (working s')"
      using uq_append_row [OF Cons.prems, of row] Nil by (simp add: s'_def row_def)
    from Cons.IH [OF this] have IH: "ensure_rows_loop sts d s' = Inr (s'\<lparr>working := (working s')\<lparr>attendance_rows :=
                attendance_rows (working s') @ missing_rows sts d (attendance_rows (working s'))\<rparr>,
            events := events s' @ map AddAttendance (missing_rows sts d (attendance_rows (working s')))\<rparr>)" .
    have f: "filter (\<lambda>a. student_id a = s_id st \<and> day a = d) (attendance_rows (working s)) = []"
      using Nil by (simp add: query_attendance_def)
    show ?thesis
      using Nil add IH f by (simp add: s'_def row_def Let_def)
  next
    case (Cons x xs)
    with le have xs: "xs = []" by simp
    have f: "filter (\<lambda>a. student_id a = s_id st \<and> day a = d) (attendance_rows (working s)) \<noteq> []"
      using Cons by (simp add: query_attendance_def)
    show ?thesis
      using Cons xs Cons.IH [OF Cons.prems] f by simp
  qed
qed

lemma missing_rows_shape:
  "r \<in> set (missing_rows sts d rows) \<Longrightarrow>
     status r = ''Absent'' \<and> timestamp r = None \<and> day r = d"
  by (induction sts d rows rule: missing_rows.induct) (auto simp: Let_def split: if_splits)

lemma missing_rows_ids:
  "set (map student_id (missing_rows sts d rows)) =
     {s_id st |st. st \<in> set sts \<and> filter (\<lambda>a. student_id a = s_id st \<and> day a = d) rows = []}"
proof (induction sts d rows rule: missing_rows.induct)
  case (1 d rows)
  then show ?case by simp
next
  case (2 st sts d rows)
  show ?case
  proof (cases "filter (\<lambda>a. student_id a = s_id st \<and> day a = d) rows \<noteq> []")
    case True
    with 2 show ?thesis by (auto simp: filter_empty_conv)
  next
    case False
    define row where "row = \<lparr>a_id = next_id (map a_id rows), student_id = s_id st, day = d,
                        status = ''Absent'', timestamp = None\<rparr>"
    have e: "(filter (\<lambda>a. student_id a = k \<and> day a = d) (rows @ [row]) = []) =
             (filter (\<lambda>a. student_id a = k \<and> day a = d) rows = [] \<and> k \<noteq> s_id st)" for k
      by (auto simp: row_def)
    have IH: "set (map student_id (missing_rows sts d (rows @ [row]))) =
       {s_id st' |st'. st' \<in> set sts \<and> filter (\<lambda>a. student_id a = s_id st' \<and> day a = d) rows = [] \<and> s_id st' \<noteq> s_id st}"
      using 2(2) [OF False row_def] unfolding e by simp
    have m: "missing_rows (st # sts) d rows = row # missing_rows sts d (rows @ [row])"
      using False by (simp add: Let_def row_def)
    have "set (map student_id (missing_rows (st # sts) d rows)) =
            insert (s_id st) (set (map student_id (missing_rows sts d (rows @ [row]))))"
      unfolding m by (simp add: row_def)
    also have "\<dots> = {s_id st' |st'. st' \<in> set (st # sts) \<and> filter (\<lambda>a. student_id a = s_id st' \<and> day a = d) rows = []}"
      unfolding IH using False by auto
    finally show ?thesis .
  qed
qed

lemma missing_rows_distinct:
  "distinct (map student_id (missing_rows sts d rows))"
proof (induction sts d rows rule: missing_rows.induct)
  case (1 d rows)
  then show ?case by simp
next
  case (2 st sts d rows)
  show ?case
  proof (cases "filter (\<lambda>a. student_id a = s_id st \<and> day a = d) rows \<noteq> []")
    case True
    with 2 show ?thesis by simp
  next
    case False
    define row where "row = \<lparr>a_id = next_id (map a_id rows), student_id = s_id st, day = d,
                        status = ''Absent'', timestamp = None\<rparr>"
    have "s_id st \<notin> set (map student_id (missing_rows sts d (rows @ [row])))"
      unfolding missing_rows_ids by (auto simp: row_def)
    with 2 False show ?thesis by (simp add: Let_def row_def)
  qed
qed

lemma filter_distinct_key:
  "distinct (map f xs) \<Longrightarrow> \<forall>x\<in>set xs. g x = d \<Longrightarrow>
   length (filter (\<lambda>a. f a = k \<and> g a = d) xs) = (if k \<in> set (map f xs) then 1 else 0)"
  by (induction xs) (auto simp: image_iff filter_empty_conv)

lemma missing_rows_idem:
  "missing_rows sts d (rows @ missing_rows sts d rows) = []"
proof -
  have "\<And>extra. \<forall>st\<in>set sts. filter (\<lambda>a. student_id a = s_id st \<and> day a = d) extra \<noteq> [] \<Longrightarrow> missing_rows sts d extra = []"
    for sts by (induction sts) auto
  moreover have "\<forall>st\<in>set sts. filter (\<lambda>a. student_id a = s_id st \<and> day a = d) (rows @ missing_rows sts d rows) \<noteq> []"
  proof
    fix st assume st: "st \<in> set sts"
    show "filter (\<lambda>a. student_id a = s_id st \<and> day a = d) (rows @ missing_rows sts d rows) \<noteq> []"
    proof (cases "filter (\<lambda>a. student_id a = s_id st \<and> day a = d) rows = []")
      case True
      with st have "s_id st \<in> set (map student_id (missing_rows sts d rows))"
        unfolding missing_rows_ids by blast
      then obtain r where "r \<in> set (missing_rows sts d rows)" "student_id r = s_id st" by auto
      moreover from this have "day r = d" using missing_rows_shape by blast
      ultimately show ?thesis by (auto simp: filter_empty_conv)
    next
      case False
      then show ?thesis by simp
    qed
  qed
  ultimately show ?thesis by blast
qed

lemma missing_rows_count:
  assumes "distinct (map (\<lambda>a. (student_id a, day a)) rows)" "st \<in> set sts"
  shows "length (filter (\<lambda>a. student_id a = s_id st \<and> day a = d) (rows @ missing_rows sts d rows)) = 1"
proof -
  let ?new = "missing_rows sts d rows"
  have n: "length (filter (\<lambda>a. student_id a = s_id st \<and> day a = d) ?new) = (if s_id st \<in> set (map student_id ?new) then 1 else 0)"
    by (rule filter_distinct_key [OF missing_rows_distinct]) (simp add: missing_rows_shape)
  have le: "length (filter (\<lambda>a. (student_id a, day a) = (s_id st, d)) rows) \<le> 1"
    using assms(1) by (rule filter_key_le1)
  show ?thesis
  proof (cases "filter (\<lambda>a. student_id a = s_id st \<and> day a = d) rows = []")
    case True
    with assms(2) have "s_id st \<in> set (map student_id ?new)"
      unfolding missing_rows_ids by blast
    with n True show ?thesis by simp
  next
    case False
    then have "s_id st \<notin> set (map student_id ?new)"
      unfolding missing_rows_ids by auto
    moreover from False le have "length (filter (\<lambda>a. student_id a = s_id st \<and> day a = d) rows) = 1"
      by (cases "filter (\<lambda>a. student_id a = s_id st \<and> day a = d) rows") auto
    ultimately show ?thesis using n by simp
  qed
qed

lemma missing_rows_uq:
  "distinct (map (\<lambda>a. (student_id a, day a)) rows) \<Longrightarrow>
   distinct (map (\<lambda>a. (student_id a, day a)) (rows @ missing_rows sts d rows))"
proof (induction sts d rows rule: missing_rows.induct)
  case (1 d rows)
  then show ?case by simp
next
  case (2 st sts d rows)
  show ?case
  proof (cases "filter (\<lambda>a. student_id a = s_id st \<and> day a = d) rows \<noteq> []")
    case True
    with 2 show ?thesis by simp
  next
    case False
    define row where "row = \<lparr>a_id = next_id (map a_id rows), student_id = s_id st, day = d,
                        status = ''Absent'', timestamp = None\<rparr>"
    have "distinct (map (\<lambda>a. (student_id a, day a)) (rows @ [row]))"
      using "2.prems" False by (auto simp: row_def filter_empty_conv)
    from 2(2) [OF False row_def this] False show ?thesis
      by (simp add: Let_def row_def)
  qed
qed

lemma ensure_day_rows_result:
  assumes "uq_student_day (working s)"
  shows "ensure_day_rows s d =
     Inr \<lparr>committed = (working s)\<lparr>attendance_rows := attendance_rows (working s) @
                          missing_rows (students (working s)) d (attendance_rows (working s))\<rparr>,
          working = (working s)\<lparr>attendance_rows := attendance_rows (working s) @
                          missing_rows (students (working s)) d (attendance_rows (working s))\<rparr>,
          events = events s @ map AddAttendance
                     (missing_rows (students (working s)) d (attendance_rows (working s))) @ [Commit]\<rparr>"
  unfolding ensure_day_rows_def ensure_rows_loop_result [OF assms]
  by (simp add: commit_def)

text \<open>
  Claim C1. On a database that satisfies the constraint \<open>uq_student_day\<close>, for every
  day \<open>d\<close>, \<open>ensure_day_rows\<close> returns without an error; it appends rows to the
  attendance table and changes nothing else; the rows appended are 'Absent' rows of day
  \<open>d\<close> without a timestamp, one for each student that had no row for \<open>d\<close> and for no
  other; afterwards every student has exactly one row for \<open>d\<close>; the session has made
  the insertions and then one commit, which holds them all. A second call for the same
  day returns without an error, changes no table and only commits.
\<close>

theorem ensure_day_rows_exactly_one:
  assumes "uq_student_day (working s)"
  shows "\<exists>s1 s2 new.
       ensure_day_rows s d = Inr s1
     \<and> students (working s1) = students (working s)
     \<and> attendance_rows (working s1) = attendance_rows (working s) @ new
     \<and> (\<forall>r\<in>set new. status r = ''Absent'' \<and> timestamp r = None \<and> day r = d)
     \<and> distinct (map student_id new)
     \<and> set (map student_id new) =
         {s_id st |st. st \<in> set (students (working s)) \<and> query_attendance (working s) (s_id st) d = []}
     \<and> (\<forall>st\<in>set (students (working s)). length (query_attendance (working s1) (s_id st) d) = 1)
     \<and> events s1 = events s @ map AddAttendance new @ [Commit]
     \<and> committed s1 = working s1
     \<and> ensure_day_rows s1 d = Inr s2
     \<and> working s2 = working s1 \<and> committed s2 = working s1
     \<and> events s2 = events s1 @ [Commit]"
proof -
  let ?rows = "attendance_rows (working s)"
  let ?new = "missing_rows (students (working s)) d ?rows"
  let ?db1 = "(working s)\<lparr>attendance_rows := ?rows @ ?new\<rparr>"
  let ?s1 = "\<lparr>committed = ?db1, working = ?db1, events = events s @ map AddAttendance ?new @ [Commit]\<rparr>"
  let ?s2 = "\<lparr>committed = ?db1, working = ?db1, events = events ?s1 @ [Commit]\<rparr>"
  have r1: "ensure_day_rows s d = Inr ?s1"
    by (rule ensure_day_rows_result [OF assms])
  have uq: "distinct (map (\<lambda>a. (student_id a, day a)) ?rows)"
    using assms by (simp add: uq_student_day_def)
  have uq1: "uq_student_day (working ?s1)"
    using missing_rows_uq [OF uq] by (simp add: uq_student_day_def)
  have r2: "ensure_day_rows ?s1 d = Inr ?s2"
    unfolding ensure_day_rows_result [OF uq1] by (simp add: missing_rows_idem)
  have shape: "\<forall>r\<in>set ?new. status r = ''Absent'' \<and> timestamp r = None \<and> day r = d"
    using missing_rows_shape by blast
  have ids: "set (map student_id ?new) =
         {s_id st |st. st \<in> set (students (working s)) \<and> query_attendance (working s) (s_id st) d = []}"
    unfolding missing_rows_ids query_attendance_def ..
  have one: "\<forall>st\<in>set (students (working s)). length (query_attendance (working ?s1) (s_id st) d) = 1"
    using missing_rows_count [OF uq] by (simp add: query_attendance_def)
  show ?thesis
    apply (rule exI [of _ ?s1], rule exI [of _ ?s2], rule exI [of _ ?new])
    apply (intro conjI)
    apply (rule r1)
    apply simp
    apply simp
    apply (rule shape)
    apply (rule missing_rows_distinct)
    apply (rule ids)
    apply (rule one)
    apply simp
    apply simp
    apply (rule r2)
    apply simp
    apply simp
    apply simp
    done
qed


theorem ensure_day_rows_exactly_one_witness:
  "uq_student_day (working (open_session db0)) \<and>
   (\<exists>s1 s2. ensure_day_rows (open_session db0) (2024, 1, 5) = Inr s1
       \<and> length (query_attendance (working s1) 1 (2024, 1, 5)) = 1
       \<and> length (query_attendance (working s1) 2 (2024, 1, 5)) = 1
       \<and> committed s1 = working s1
       \<and> ensure_day_rows s1 (2024, 1, 5) = Inr s2
       \<and> working s2 = working s1)"
proof -
  have h: "uq_student_day (working (open_session db0))"
    by (simp add: uq_student_day_def open_session_def db0_def)
  from ensure_day_rows_exactly_one [OF h, of "(2024, 1, 5)"]
  obtain s1 s2 where r: "ensure_day_rows (open_session db0) (2024, 1, 5) = Inr s1"
    and one: "\<forall>st\<in>set (students (working (open_session db0))).
                length (query_attendance (working s1) (s_id st) (2024, 1, 5)) = 1"
    and c: "committed s1 = working s1"
    and r2: "ensure_day_rows s1 (2024, 1, 5) = Inr s2" and w2: "working s2 = working s1"
    by blast
  from one have "length (query_attendance (working s1) 1 (2024, 1, 5)) = 1"
    and "length (query_attendance (working s1) 2 (2024, 1, 5)) = 1"
    by (simp_all add: open_session_def db0_def stu1_def stu2_def)
  with h r c r2 w2 show ?thesis by blast
qed

section \<open>Recognition\<close>

lemma scan_faces_append:
  "scan_faces pred th (xs @ ys) acc = scan_faces pred th ys (scan_faces pred th xs acc)"
  by (induction pred th xs acc rule: scan_faces.induct) (auto split: prod.splits)

lemma recognize_loop_from:
  "stops (cam (i + k)) \<Longrightarrow> \<forall>j<k. \<not> stops (cam (i + j)) \<Longrightarrow>
   recognize_loop pred th cam i acc =
     Some (fst (scan_faces pred th (concat (map (\<lambda>j. faces_of (cam j)) [i..<Suc (i + k)])) acc))"
proof (induction k arbitrary: i acc)
  case 0
  then show ?case
    by (subst recognize_loop.simps) (cases "cam i"; simp)
next
  case (Suc k)
  from Suc.prems(2) have ns: "\<not> stops (cam i)" by (metis add.right_neutral zero_less_Suc)
  then obtain faces where ci: "cam i = Frame faces False" by (cases "cam i") auto
  have a: "stops (cam (Suc i + k))" using Suc.prems(1) by simp
  have b: "\<forall>j<k. \<not> stops (cam (Suc i + j))" using Suc.prems(2) by auto
  have l: "[i..<Suc (i + Suc k)] = i # [Suc i..<Suc (Suc i + k)]"
    by (simp add: upt_conv_Cons)
  show ?case
    apply (subst recognize_loop.simps)
    apply (simp only: l ci read.case Let_def if_False)
    apply (simp only: Suc.IH [OF a b])
    apply (simp add: ci scan_faces_append)
    done
qed

lemma recognize_loop_stops:
  assumes "first_stop cam n"
  shows "recognize_loop pred th cam 0 acc = Some (fst (scan_faces pred th (faces_seen cam n) acc))"
proof -
  from assms have "stops (cam (0 + n))" "\<forall>j<n. \<not> stops (cam (0 + j))"
    by (auto simp: first_stop_def list_all_iff)
  from recognize_loop_from [OF this] show ?thesis by (simp add: faces_seen_def)
qed


lemma scan_faces_first_lowest:
  "scan_faces pred th faces (p, b) = (p', b') \<Longrightarrow>
   (if \<forall>roi\<in>set faces. \<not> (snd (pred roi) < b \<and> snd (pred roi) < th) then p' = p \<and> b' = b
    else \<exists>ys roi zs. faces = ys @ roi # zs \<and> p' = Some (fst (pred roi)) \<and> b' = snd (pred roi)
           \<and> snd (pred roi) < b \<and> snd (pred roi) < th
           \<and> (\<forall>y\<in>set ys. snd (pred y) < b \<and> snd (pred y) < th \<longrightarrow> snd (pred roi) < snd (pred y))
           \<and> (\<forall>z\<in>set zs. snd (pred z) < b \<and> snd (pred z) < th \<longrightarrow> snd (pred roi) \<le> snd (pred z)))"
proof (induction faces arbitrary: p b)
  case Nil
  then show ?case by simp
next
  case (Cons x fs)
  obtain l c where px: "pred x = (l, c)" by (cases "pred x")
  show ?case
  proof (cases "c < b \<and> c < th")
    case True
    with Cons.prems px have run: "scan_faces pred th fs (Some l, c) = (p', b')" by simp
    note IH = Cons.IH [OF run]
    show ?thesis
    proof (cases "\<forall>roi\<in>set fs. \<not> (snd (pred roi) < c \<and> snd (pred roi) < th)")
      case all: True
      with IH have r: "p' = Some l" "b' = c" by auto
      have "x # fs = [] @ x # fs \<and> p' = Some (fst (pred x)) \<and> b' = snd (pred x)
           \<and> snd (pred x) < b \<and> snd (pred x) < th
           \<and> (\<forall>y\<in>set []. snd (pred y) < b \<and> snd (pred y) < th \<longrightarrow> snd (pred x) < snd (pred y))
           \<and> (\<forall>z\<in>set fs. snd (pred z) < b \<and> snd (pred z) < th \<longrightarrow> snd (pred x) \<le> snd (pred z))"
        using r px True all by (auto simp: not_less)
      then have "\<exists>ys roi zs. x # fs = ys @ roi # zs \<and> p' = Some (fst (pred roi)) \<and> b' = snd (pred roi)
           \<and> snd (pred roi) < b \<and> snd (pred roi) < th
           \<and> (\<forall>y\<in>set ys. snd (pred y) < b \<and> snd (pred y) < th \<longrightarrow> snd (pred roi) < snd (pred y))
           \<and> (\<forall>z\<in>set zs. snd (pred z) < b \<and> snd (pred z) < th \<longrightarrow> snd (pred roi) \<le> snd (pred z))"
        by blast
      moreover have "\<not> (\<forall>roi\<in>set (x # fs). \<not> (snd (pred roi) < b \<and> snd (pred roi) < th))"
        using True px by simp
      ultimately show ?thesis by (simp only: if_False)
    next
      case some: False
      with IH obtain ys roi zs where d: "fs = ys @ roi # zs" "p' = Some (fst (pred roi))" "b' = snd (pred roi)"
          "snd (pred roi) < c" "snd (pred roi) < th"
          "\<forall>y\<in>set ys. snd (pred y) < c \<and> snd (pred y) < th \<longrightarrow> snd (pred roi) < snd (pred y)"
          "\<forall>z\<in>set zs. snd (pred z) < c \<and> snd (pred z) < th \<longrightarrow> snd (pred roi) \<le> snd (pred z)"
        by (simp only: if_False) blast
      have "x # fs = (x # ys) @ roi # zs \<and> p' = Some (fst (pred roi)) \<and> b' = snd (pred roi)
           \<and> snd (pred roi) < b \<and> snd (pred roi) < th
           \<and> (\<forall>y\<in>set (x # ys). snd (pred y) < b \<and> snd (pred y) < th \<longrightarrow> snd (pred roi) < snd (pred y))
           \<and> (\<forall>z\<in>set zs. snd (pred z) < b \<and> snd (pred z) < th \<longrightarrow> snd (pred roi) \<le> snd (pred z))"
        using d True px by (fastforce simp: not_less)
      then have "\<exists>ys roi zs. x # fs = ys @ roi # zs \<and> p' = Some (fst (pred roi)) \<and> b' = snd (pred roi)
           \<and> snd (pred roi) < b \<and> snd (pred roi) < th
           \<and> (\<forall>y\<in>set ys. snd (pred y) < b \<and> snd (pred y) < th \<longrightarrow> snd (pred roi) < snd (pred y))
           \<and> (\<forall>z\<in>set zs. snd (pred z) < b \<and> snd (pred z) < th \<longrightarrow> snd (pred roi) \<le> snd (pred z))"
        by blast
      moreover have "\<not> (\<forall>roi\<in>set (x # fs). \<not> (snd (pred roi) < b \<and> snd (pred roi) < th))"
        using True px by simp
      ultimately show ?thesis by (simp only: if_False)
    qed
  next
    case False
    with Cons.prems px have run: "scan_faces pred th fs (p, b) = (p', b')" by auto
    note IH = Cons.IH [OF run]
    show ?thesis
    proof (cases "\<forall>roi\<in>set fs. \<not> (snd (pred roi) < b \<and> snd (pred roi) < th)")
      case all: True
      with IH have B: "p' = p \<and> b' = b" by simp
      have A: "\<forall>roi\<in>set (x # fs). \<not> (snd (pred roi) < b \<and> snd (pred roi) < th)"
        using all False px by simp
      show ?thesis by (subst if_P [OF A]) (rule B)
    next
      case some: False
      with IH obtain ys roi zs where d: "fs = ys @ roi # zs" "p' = Some (fst (pred roi))" "b' = snd (pred roi)"
          "snd (pred roi) < b" "snd (pred roi) < th"
          "\<forall>y\<in>set ys. snd (pred y) < b \<and> snd (pred y) < th \<longrightarrow> snd (pred roi) < snd (pred y)"
          "\<forall>z\<in>set zs. snd (pred z) < b \<and> snd (pred z) < th \<longrightarrow> snd (pred roi) \<le> snd (pred z)"
        by (simp only: if_False) blast
      have "x # fs = (x # ys) @ roi # zs \<and> p' = Some (fst (pred roi)) \<and> b' = snd (pred roi)
           \<and> snd (pred roi) < b \<and> snd (pred roi) < th
           \<and> (\<forall>y\<in>set (x # ys). snd (pred y) < b \<and> snd (pred y) < th \<longrightarrow> snd (pred roi) < snd (pred y))
           \<and> (\<forall>z\<in>set zs. snd (pred z) < b \<and> snd (pred z) < th \<longrightarrow> snd (pred roi) \<le> snd (pred z))"
        using d False px by auto
      then have "\<exists>ys roi zs. x # fs = ys @ roi # zs \<and> p' = Some (fst (pred roi)) \<and> b' = snd (pred roi)
           \<and> snd (pred roi) < b \<and> snd (pred roi) < th
           \<and> (\<forall>y\<in>set ys. snd (pred y) < b \<and> snd (pred y) < th \<longrightarrow> snd (pred roi) < snd (pred y))
           \<and> (\<forall>z\<in>set zs. snd (pred z) < b \<and> snd (pred z) < th \<longrightarrow> snd (pred roi) \<le> snd (pred z))"
        by blast
      moreover have "\<not> (\<forall>roi\<in>set (x # fs). \<not> (snd (pred roi) < b \<and> snd (pred roi) < th))"
        using some by simp
      ultimately show ?thesis by (simp only: if_False)
    qed
  qed
qed

lemma recognize_once_ready:
  assumes "first_stop cam n"
    and "model_file e \<noteq> None \<or> (\<exists>images labels. load_dataset e = Inr (images, labels) \<and> images \<noteq> [])"
  shows "\<exists>e'. recognizer e' \<noteq> None \<and> faces_dir e' = faces_dir e \<and>
           recognize_once predict th e cam =
             Some (Inr (fst (scan_faces (predict (recognizer e')) th (faces_seen cam n) (None, 999))), e')"
proof (cases "model_file e")
  case (Some m)
  then show ?thesis
    by (simp add: recognize_once_def ensure_model_loaded_def recognize_loop_stops [OF assms(1)])
next
  case None
  with assms(2) obtain images labels where l: "load_dataset e = Inr (images, labels)" "images \<noteq> []"
    by auto
  with None show ?thesis
    by (simp add: recognize_once_def ensure_model_loaded_def train_or_update_model_def
          recognize_loop_stops [OF assms(1)])
qed

lemma recognize_once_first_lowest:
  assumes "first_stop cam n"
    and "model_file e \<noteq> None \<or> (\<exists>images labels. load_dataset e = Inr (images, labels) \<and> images \<noteq> [])"
  shows "\<exists>r e'. recognize_once predict th e cam = Some (Inr r, e')
     \<and> recognizer e' \<noteq> None
     \<and> ((r = None) = (\<forall>roi\<in>set (faces_seen cam n). \<not> accepted th (snd (predict (recognizer e') roi))))
     \<and> (\<forall>l. r = Some l \<longrightarrow>
           (\<exists>ys roi zs. faces_seen cam n = ys @ roi # zs
              \<and> l = fst (predict (recognizer e') roi)
              \<and> accepted th (snd (predict (recognizer e') roi))
              \<and> (\<forall>y\<in>set ys. accepted th (snd (predict (recognizer e') y)) \<longrightarrow>
                    snd (predict (recognizer e') roi) < snd (predict (recognizer e') y))
              \<and> (\<forall>z\<in>set zs. accepted th (snd (predict (recognizer e') z)) \<longrightarrow>
                    snd (predict (recognizer e') roi) \<le> snd (predict (recognizer e') z))))
     \<and> (th \<le> 999 \<longrightarrow> (\<forall>c. accepted th c = (c < th)))"
proof -
  from recognize_once_ready [OF assms, of predict th]
  obtain e' where e': "recognizer e' \<noteq> None"
    and run: "recognize_once predict th e cam =
             Some (Inr (fst (scan_faces (predict (recognizer e')) th (faces_seen cam n) (None, 999))), e')"
    by blast
  define pred where "pred = predict (recognizer e')"
  define faces where "faces = faces_seen cam n"
  obtain p b where sc: "scan_faces pred th faces (None, 999) = (p, b)"
    by (cases "scan_faces pred th faces (None, 999)")
  note inv = scan_faces_first_lowest [OF sc]
  have none: "(p = None) = (\<forall>roi\<in>set faces. \<not> accepted th (snd (pred roi)))"
  proof (cases "\<forall>roi\<in>set faces. \<not> (snd (pred roi) < 999 \<and> snd (pred roi) < th)")
    case True
    with inv show ?thesis by (simp add: accepted_def)
  next
    case False
    with inv have "p \<noteq> None" by (simp only: if_False) blast
    moreover from False have "\<not> (\<forall>roi\<in>set faces. \<not> accepted th (snd (pred roi)))"
      by (simp add: accepted_def)
    ultimately show ?thesis by blast
  qed
  have some: "\<forall>l. p = Some l \<longrightarrow>
           (\<exists>ys roi zs. faces = ys @ roi # zs \<and> l = fst (pred roi) \<and> accepted th (snd (pred roi))
              \<and> (\<forall>y\<in>set ys. accepted th (snd (pred y)) \<longrightarrow> snd (pred roi) < snd (pred y))
              \<and> (\<forall>z\<in>set zs. accepted th (snd (pred z)) \<longrightarrow> snd (pred roi) \<le> snd (pred z)))"
  proof (intro allI impI)
    fix l assume pl: "p = Some l"
    show "\<exists>ys roi zs. faces = ys @ roi # zs \<and> l = fst (pred roi) \<and> accepted th (snd (pred roi))
              \<and> (\<forall>y\<in>set ys. accepted th (snd (pred y)) \<longrightarrow> snd (pred roi) < snd (pred y))
              \<and> (\<forall>z\<in>set zs. accepted th (snd (pred z)) \<longrightarrow> snd (pred roi) \<le> snd (pred z))"
    proof (cases "\<forall>roi\<in>set faces. \<not> (snd (pred roi) < 999 \<and> snd (pred roi) < th)")
      case True
      with inv pl show ?thesis by simp
    next
      case False
      with inv obtain ys roi zs where "faces = ys @ roi # zs" "p = Some (fst (pred roi))"
          "snd (pred roi) < 999" "snd (pred roi) < th"
          "\<forall>y\<in>set ys. snd (pred y) < 999 \<and> snd (pred y) < th \<longrightarrow> snd (pred roi) < snd (pred y)"
          "\<forall>z\<in>set zs. snd (pred z) < 999 \<and> snd (pred z) < th \<longrightarrow> snd (pred roi) \<le> snd (pred z)"
        by (simp only: if_False) blast
      with pl show ?thesis unfolding accepted_def by blast
    qed
  qed
  have acc: "th \<le> 999 \<longrightarrow> (\<forall>c. accepted th c = (c < th))"
    by (auto simp: accepted_def)
  have run': "recognize_once predict th e cam = Some (Inr p, e')"
    using run sc by (simp add: pred_def faces_def)
  show ?thesis
    apply (rule exI [of _ p], rule exI [of _ e'])
    using run' e' none some acc unfolding pred_def faces_def
    apply (intro conjI)
    apply assumption+
    done
qed

lemma first_stop_three: "first_stop cam_three 0"
  by (simp add: first_stop_def cam_three_def)

lemma faces_seen_three: "faces_seen cam_three 0 = [(1, 80), (2, 40), (3, 55)]"
  by (simp add: faces_seen_def cam_three_def)

lemma recognize_three: "recognize_once pred_id 70 eng_loaded cam_three = Some (Inr (Some 2), eng_loaded)"
  by (simp add: recognize_once_def ensure_model_loaded_def eng_loaded_def
        recognize_loop_stops [OF first_stop_three] faces_seen_three pred_id_def)

text \<open>
  Claim C4. Let the camera's first stopping read be read \<open>n\<close> (no frame, or the key q),
  let a model be loadable or trainable, and let the threshold be at most 999 (the
  default and the only call use 70) or every confidence be below 999. Then
  \<open>recognize_once\<close> returns, and a detection is accepted if and only if its confidence
  is strictly below the threshold: the result is absent exactly when no face seen up to
  read \<open>n\<close> has a confidence below the threshold (so also when no frame was read or no
  face detected); otherwise it is the label of a detection below the threshold whose
  confidence is strictly lower than that of every such detection before it and not
  higher than that of any such detection after it.
\<close>

theorem recognize_once_lowest_accepted:
  assumes "first_stop cam n"
    and "model_file e \<noteq> None \<or> (\<exists>images labels. load_dataset e = Inr (images, labels) \<and> images \<noteq> [])"
    and "th \<le> 999 \<or> (\<forall>roi\<in>set (faces_seen cam n). \<forall>m. snd (predict m roi) < 999)"
  shows "\<exists>r e'. recognize_once predict th e cam = Some (Inr r, e')
     \<and> recognizer e' \<noteq> None
     \<and> ((r = None) = (\<forall>roi\<in>set (faces_seen cam n). \<not> snd (predict (recognizer e') roi) < th))
     \<and> (\<forall>l. r = Some l \<longrightarrow>
           (\<exists>ys roi zs. faces_seen cam n = ys @ roi # zs
              \<and> l = fst (predict (recognizer e') roi)
              \<and> snd (predict (recognizer e') roi) < th
              \<and> (\<forall>y\<in>set ys. snd (predict (recognizer e') y) < th \<longrightarrow>
                    snd (predict (recognizer e') roi) < snd (predict (recognizer e') y))
              \<and> (\<forall>z\<in>set zs. snd (predict (recognizer e') z) < th \<longrightarrow>
                    snd (predict (recognizer e') roi) \<le> snd (predict (recognizer e') z))))"
proof -
  from recognize_once_first_lowest [OF assms(1,2), of predict th]
  obtain r e' where run: "recognize_once predict th e cam = Some (Inr r, e')"
    and e': "recognizer e' \<noteq> None"
    and none: "(r = None) = (\<forall>roi\<in>set (faces_seen cam n). \<not> accepted th (snd (predict (recognizer e') roi)))"
    and some: "\<forall>l. r = Some l \<longrightarrow>
           (\<exists>ys roi zs. faces_seen cam n = ys @ roi # zs
              \<and> l = fst (predict (recognizer e') roi)
              \<and> accepted th (snd (predict (recognizer e') roi))
              \<and> (\<forall>y\<in>set ys. accepted th (snd (predict (recognizer e') y)) \<longrightarrow>
                    snd (predict (recognizer e') roi) < snd (predict (recognizer e') y))
              \<and> (\<forall>z\<in>set zs. accepted th (snd (predict (recognizer e') z)) \<longrightarrow>
                    snd (predict (recognizer e') roi) \<le> snd (predict (recognizer e') z)))"
    by blast
  define conf where "conf = (\<lambda>roi. snd (predict (recognizer e') roi))"
  have eq: "accepted th (conf roi) = (conf roi < th)" if "roi \<in> set (faces_seen cam n)" for roi
    using assms(3) that by (auto simp: accepted_def conf_def)
  have none': "(r = None) = (\<forall>roi\<in>set (faces_seen cam n). \<not> conf roi < th)"
    using none eq by (simp add: conf_def)
  have some': "\<forall>l. r = Some l \<longrightarrow>
           (\<exists>ys roi zs. faces_seen cam n = ys @ roi # zs
              \<and> l = fst (predict (recognizer e') roi)
              \<and> conf roi < th
              \<and> (\<forall>y\<in>set ys. conf y < th \<longrightarrow> conf roi < conf y)
              \<and> (\<forall>z\<in>set zs. conf z < th \<longrightarrow> conf roi \<le> conf z))"
  proof (intro allI impI)
    fix l assume "r = Some l"
    with some obtain ys roi zs where d: "faces_seen cam n = ys @ roi # zs"
        "l = fst (predict (recognizer e') roi)" "accepted th (conf roi)"
        "\<forall>y\<in>set ys. accepted th (conf y) \<longrightarrow> conf roi < conf y"
        "\<forall>z\<in>set zs. accepted th (conf z) \<longrightarrow> conf roi \<le> conf z"
      unfolding conf_def by blast
    have m: "roi \<in> set (faces_seen cam n)" "\<forall>y\<in>set ys. y \<in> set (faces_seen cam n)"
      "\<forall>z\<in>set zs. z \<in> set (faces_seen cam n)"
      using d(1) by simp_all
    have "conf roi < th" using d(3) eq m(1) by simp
    moreover have "\<forall>y\<in>set ys. conf y < th \<longrightarrow> conf roi < conf y" using d(4) eq m(2) by simp
    moreover have "\<forall>z\<in>set zs. conf z < th \<longrightarrow> conf roi \<le> conf z" using d(5) eq m(3) by simp
    ultimately show "\<exists>ys roi zs. faces_seen cam n = ys @ roi # zs
              \<and> l = fst (predict (recognizer e') roi)
              \<and> conf roi < th
              \<and> (\<forall>y\<in>set ys. conf y < th \<longrightarrow> conf roi < conf y)
              \<and> (\<forall>z\<in>set zs. conf z < th \<longrightarrow> conf roi \<le> conf z)"
      using d(1,2) by blast
  qed
  show ?thesis
    apply (rule exI [of _ r], rule exI [of _ e'])
    using run e' none' some' unfolding conf_def
    apply (intro conjI)
    apply assumption+
    done
qed

lemma recognize_one_face:
  "recognize_once pred_id 70 eng_loaded (cam_conf c) =
     Some (Inr (if c < 70 then Some 5 else None), eng_loaded)"
proof -
  have s: "first_stop (cam_conf c) 0" by (simp add: first_stop_def cam_conf_def)
  have f: "faces_seen (cam_conf c) 0 = [(5, c)]" by (simp add: faces_seen_def cam_conf_def)
  show ?thesis
    by (simp add: recognize_once_def ensure_model_loaded_def eng_loaded_def
          recognize_loop_stops [OF s] f pred_id_def)
qed

theorem recognize_once_lowest_accepted_witness:
  "first_stop cam_three 0 \<and> model_file eng_loaded \<noteq> None \<and> (70 :: real) \<le> 999 \<and>
   faces_seen cam_three 0 = [(1, 80), (2, 40), (3, 55)] \<and>
   recognize_once pred_id 70 eng_loaded cam_three = Some (Inr (Some 2), eng_loaded) \<and>
   recognize_once pred_id 70 eng_loaded (cam_conf 65) = Some (Inr (Some 5), eng_loaded) \<and>
   recognize_once pred_id 70 eng_loaded (cam_conf 75) = Some (Inr None, eng_loaded) \<and>
   recognize_once pred_id 70 eng_loaded (cam_conf 70) = Some (Inr None, eng_loaded)"
proof -
  have h1: "first_stop cam_three 0" by (rule first_stop_three)
  have h2: "model_file eng_loaded \<noteq> None \<or>
            (\<exists>images labels. load_dataset eng_loaded = Inr (images, labels) \<and> images \<noteq> [])"
    by (simp add: eng_loaded_def)
  have h3: "(70 :: real) \<le> 999 \<or>
            (\<forall>roi\<in>set (faces_seen cam_three 0). \<forall>m. snd (pred_id m roi) < 999)"
    by simp
  from recognize_once_lowest_accepted [OF h1 h2 h3]
  obtain r e' where "recognize_once pred_id 70 eng_loaded cam_three = Some (Inr r, e')"
    and "(r = None) = (\<forall>roi\<in>set (faces_seen cam_three 0). \<not> snd (pred_id (recognizer e') roi) < 70)"
    by blast
  then have "r \<noteq> None" by (simp add: faces_seen_three pred_id_def)
  with h1 recognize_three faces_seen_three recognize_one_face [of 65] recognize_one_face [of 75]
    recognize_one_face [of 70]
  show ?thesis by (simp add: eng_loaded_def)
qed

section \<open>Sample capture\<close>

lemma save_faces_run:
  "save_faces folder sid faces (c, p, w) =
     (c + length faces,
      (if faces = [] then p else Some (folder @ ''/'' @ sample_name sid (c + length faces - 1))),
      w @ map (\<lambda>(k, roi). (sample_name sid k, roi)) (enumerate c faces))"
proof (induction faces arbitrary: c p w)
  case Nil
  then show ?case by simp
next
  case (Cons x xs)
  show ?case by (simp add: Cons.IH Let_def)
qed

lemma enumerate_append:
  "enumerate n (xs @ ys) = enumerate n xs @ enumerate (n + length xs) ys"
  by (induction xs arbitrary: n) auto

lemma last_saved:
  "crops \<noteq> [] \<Longrightarrow> fst (last (saved_files sid crops)) = sample_name sid (length crops - 1)"
proof (induction crops rule: rev_induct)
  case Nil
  then show ?case by simp
next
  case (snoc x xs)
  show ?case by (simp add: saved_files_def enumerate_append)
qed

lemma save_faces_state:
  "save_faces folder sid faces (state_of folder sid xs) = state_of folder sid (xs @ faces)"
proof (cases "faces = []")
  case True
  then show ?thesis by simp
next
  case False
  then have l: "fst (last (saved_files sid (xs @ faces))) = sample_name sid (length xs + length faces - 1)"
    using last_saved [of "xs @ faces" sid] by simp
  show ?thesis
    using False l by (simp add: state_of_def save_faces_run preview_of_def saved_files_def enumerate_append)
qed

lemma faces_before_Suc: "faces_before cam (Suc i) = faces_before cam i @ faces_of (cam i)"
  by (simp add: faces_before_def)

lemma faces_seen_before: "faces_seen cam n = faces_before cam (Suc n)"
  by (simp add: faces_seen_def faces_before_def)

lemma fst_state_of: "fst (state_of folder sid xs) = length xs"
  by (simp add: state_of_def)

lemma loop_done:
  "\<not> int (length xs) < samples \<Longrightarrow>
   capture_loop folder sid samples cam i (state_of folder sid xs) = Some (state_of folder sid xs)"
  by (subst capture_loop.simps) (simp add: fst_state_of)

lemma loop_noframe:
  "int (length xs) < samples \<Longrightarrow> cam i = NoFrame \<Longrightarrow>
   capture_loop folder sid samples cam i (state_of folder sid xs) = Some (state_of folder sid xs)"
  by (subst capture_loop.simps) (simp add: fst_state_of)

lemma loop_frame:
  "int (length xs) < samples \<Longrightarrow> cam i = Frame fs q \<Longrightarrow>
   capture_loop folder sid samples cam i (state_of folder sid xs) =
     (if q then Some (state_of folder sid (xs @ fs))
      else capture_loop folder sid samples cam (Suc i) (state_of folder sid (xs @ fs)))"
  by (subst capture_loop.simps) (simp add: fst_state_of save_faces_state)

lemma capture_loop_from:
  assumes H1: "\<forall>i\<le>n. int (length (faces_before cam i)) < samples"
    and H2: "\<forall>i<n. \<not> stops (cam i)"
    and H3: "stops (cam n) \<or> samples \<le> int (length (faces_seen cam n))"
  shows "i \<le> n \<Longrightarrow>
     capture_loop folder sid samples cam i (state_of folder sid (faces_before cam i)) =
       Some (state_of folder sid (faces_seen cam n))"
proof (induction "n - i" arbitrary: i)
  case 0
  then have i: "i = n" by simp
  from H1 have c: "int (length (faces_before cam n)) < samples" by simp
  show ?case
  proof (cases "cam n")
    case NoFrame
    then show ?thesis
      unfolding i by (simp add: loop_noframe [where xs="faces_before cam n" and cam=cam and i=n, OF c] faces_seen_before faces_before_Suc)
  next
    case (Frame fs q)
    have seen: "faces_seen cam n = faces_before cam n @ fs"
      by (simp add: faces_seen_before faces_before_Suc Frame)
    show ?thesis
    proof (cases q)
      case True
      then show ?thesis
        unfolding i by (simp add: loop_frame [where xs="faces_before cam n" and cam=cam and i=n, OF c Frame] seen)
    next
      case False
      with H3 Frame have over: "\<not> int (length (faces_before cam n @ fs)) < samples"
        by (simp add: seen)
      show ?thesis
        unfolding i using False by (simp add: loop_frame [where xs="faces_before cam n" and cam=cam and i=n, OF c Frame] seen loop_done [OF over])
    qed
  qed
next
  case (Suc k)
  then have lt: "i < n" by simp
  with H2 have ns: "\<not> stops (cam i)" by simp
  then obtain fs where ci: "cam i = Frame fs False" by (cases "cam i") auto
  from H1 lt have c: "int (length (faces_before cam i)) < samples" by simp
  have IH: "capture_loop folder sid samples cam (Suc i) (state_of folder sid (faces_before cam (Suc i))) =
       Some (state_of folder sid (faces_seen cam n))"
    using Suc lt by (intro Suc.hyps(1)) auto
  show ?case
    using IH by (simp add: loop_frame [where xs="faces_before cam i" and cam=cam and i=i, OF c ci] faces_before_Suc ci)
qed

lemma capture_loop_run:
  assumes "\<forall>i\<le>n. int (length (faces_before cam i)) < samples"
    and "\<forall>i<n. \<not> stops (cam i)"
    and "stops (cam n) \<or> samples \<le> int (length (faces_seen cam n))"
  shows "capture_loop folder sid samples cam 0 (0, None, []) =
           Some (state_of folder sid (faces_seen cam n))"
proof -
  have "state_of folder sid (faces_before cam 0) = (0, None, [])"
    by (simp add: state_of_def faces_before_def preview_of_def saved_files_def)
  with capture_loop_from [OF assms, of 0 folder sid] show ?thesis by simp
qed

text \<open>
  Claim C10. Take a run of \<open>capture_samples\<close> in which the count is below the requested
  number at every read up to read \<open>n\<close>, no read before \<open>n\<close> stops the loop, and after
  read \<open>n\<close> the loop ends (no frame, the key q, or the count reached). Then every face
  of every frame read is saved and counted, also those beyond the requested number:
  the files written are one per face seen, and the path returned is that of the last
  file written (the empty string when none was). So a frame with more faces than the
  remaining budget makes the number of saved crops exceed the requested count.
\<close>

theorem capture_samples_saves_every_face:
  assumes "map_of (faces_dir e) (str_int sid) \<noteq> Some File"
    and "\<forall>i\<le>n. int (length (faces_before cam i)) < samples"
    and "\<forall>i<n. \<not> stops (cam i)"
    and "stops (cam n) \<or> samples \<le> int (length (faces_seen cam n))"
  shows "\<exists>old. capture_samples e cam sid samples =
           Some (Inr (case preview_of (FACES_DIR @ ''/'' @ str_int sid) sid (faces_seen cam n) of
                        None \<Rightarrow> [] | Some p \<Rightarrow> p),
                 e\<lparr>faces_dir := set_dir (str_int sid)
                                   (put_files (saved_files sid (faces_seen cam n)) old) (faces_dir e)\<rparr>)
         \<and> length (saved_files sid (faces_seen cam n)) = length (faces_seen cam n)
         \<and> (samples < int (length (faces_before cam n)) + int (length (faces_of (cam n))) \<longrightarrow>
              samples < int (length (saved_files sid (faces_seen cam n))))"
proof -
  have len: "length (saved_files sid (faces_seen cam n)) = length (faces_seen cam n)"
    by (simp add: saved_files_def)
  have over: "samples < int (length (faces_before cam n)) + int (length (faces_of (cam n))) \<longrightarrow>
              samples < int (length (saved_files sid (faces_seen cam n)))"
    by (simp add: saved_files_def faces_seen_before faces_before_Suc)
  note run = capture_loop_run [OF assms(2,3,4), of "FACES_DIR @ ''/'' @ str_int sid" sid, simplified]
  show ?thesis
  proof (cases "map_of (faces_dir e) (str_int sid)")
    case None
    then have "capture_samples e cam sid samples =
           Some (Inr (case preview_of (FACES_DIR @ ''/'' @ str_int sid) sid (faces_seen cam n) of
                        None \<Rightarrow> [] | Some p \<Rightarrow> p),
                 e\<lparr>faces_dir := set_dir (str_int sid)
                                   (put_files (saved_files sid (faces_seen cam n)) []) (faces_dir e)\<rparr>)"
      by (simp add: capture_samples_def Let_def run state_of_def)
    with len over show ?thesis by blast
  next
    case (Some en)
    with assms(1) obtain fs where d: "en = Dir fs" by (cases en) auto
    with Some have "capture_samples e cam sid samples =
           Some (Inr (case preview_of (FACES_DIR @ ''/'' @ str_int sid) sid (faces_seen cam n) of
                        None \<Rightarrow> [] | Some p \<Rightarrow> p),
                 e\<lparr>faces_dir := set_dir (str_int sid)
                                   (put_files (saved_files sid (faces_seen cam n)) fs) (faces_dir e)\<rparr>)"
      by (simp add: capture_samples_def Let_def run state_of_def)
    with len over show ?thesis by blast
  qed
qed

lemma sample_names_1: "sample_name 1 0 = ''1_000.png''" "sample_name 1 (Suc 0) = ''1_001.png''" "str_int 1 = ''1''"
  by code_simp+

theorem capture_samples_saves_every_face_witness:
  "map_of (faces_dir eng_empty) (str_int 1) \<noteq> Some File \<and>
   int (length (faces_before cam_two 0)) < 1 \<and>
   (stops (cam_two 0) \<or> 1 \<le> int (length (faces_seen cam_two 0))) \<and>
   capture_samples eng_empty cam_two 1 1 =
     Some (Inr ''data/faces/1/1_001.png'',
           eng_empty\<lparr>faces_dir := [(''1'', Dir [(''1_000.png'', Some 11), (''1_001.png'', Some 12)])]\<rparr>) \<and>
   (1::int) < int (length (saved_files 1 (faces_seen cam_two 0)))"
proof -
  have h1: "map_of (faces_dir eng_empty) (str_int 1) \<noteq> Some File" by (simp add: eng_empty_def)
  have fb: "faces_before cam_two 0 = []" by (simp add: faces_before_def)
  have fs: "faces_seen cam_two 0 = [11, 12]" by (simp add: faces_seen_def cam_two_def)
  have h2: "\<forall>i\<le>0. int (length (faces_before cam_two i)) < 1" by (simp add: fb)
  have h3: "\<forall>i<0. \<not> stops (cam_two i)" by simp
  have h4: "stops (cam_two 0) \<or> 1 \<le> int (length (faces_seen cam_two 0))" by (simp add: fs)
  have sf: "saved_files 1 [11, 12 :: nat] = [(''1_000.png'', 11), (''1_001.png'', 12)]"
    by (simp add: saved_files_def sample_names_1 enumerate_simps)
  from capture_samples_saves_every_face [OF h1 h2 h3 h4]
  obtain old where r: "capture_samples eng_empty cam_two 1 1 =
           Some (Inr (case preview_of (FACES_DIR @ ''/'' @ str_int 1) 1 (faces_seen cam_two 0) of
                        None \<Rightarrow> [] | Some p \<Rightarrow> p),
                 eng_empty\<lparr>faces_dir := set_dir (str_int 1)
                                   (put_files (saved_files 1 (faces_seen cam_two 0)) old) (faces_dir eng_empty)\<rparr>)"
    by blast
  have direct: "capture_samples eng_empty cam_two 1 1 =
     Some (Inr ''data/faces/1/1_001.png'',
           eng_empty\<lparr>faces_dir := [(''1'', Dir [(''1_000.png'', Some 11), (''1_001.png'', Some 12)])]\<rparr>)"
    using r
    by (simp add: capture_samples_def Let_def capture_loop_run [OF h2 h3 h4, simplified] state_of_def fs sf
          preview_of_def sample_names_1 FACES_DIR_def DATA_DIR_def eng_empty_def)
  show ?thesis
    using h1 h4 direct by (simp add: fb fs sf)
qed

section \<open>Training\<close>

lemma dir_samples_Cons:
  "dir_samples ((f, c) # fs) =
     (if has_image_ext f then (case c of None \<Rightarrow> dir_samples fs | Some img \<Rightarrow> img # dir_samples fs)
      else dir_samples fs)"
  by (simp add: dir_samples_def List.map_filter_simps split: option.splits)

lemma load_dir_none:
  "dir_samples fs = [] \<Longrightarrow> load_dir sid fs (images, labels) = Inr (images, labels)"
proof (induction fs)
  case Nil
  then show ?case by simp
next
  case (Cons a fs)
  obtain f c where a: "a = (f, c)" by (cases a)
  from Cons show ?case
    unfolding a by (auto simp: dir_samples_Cons split: if_splits option.splits)
qed

lemma load_dir_some:
  "py_int sid = Some l \<Longrightarrow>
   load_dir sid fs (images, labels) =
     Inr (images @ dir_samples fs, labels @ replicate (length (dir_samples fs)) l)"
proof (induction fs arbitrary: images labels)
  case Nil
  then show ?case by (simp add: dir_samples_def List.map_filter_simps)
next
  case (Cons a fs)
  obtain f c where a: "a = (f, c)" by (cases a)
  show ?case
    unfolding a using Cons.prems
    by (simp add: dir_samples_Cons Cons.IH [OF Cons.prems] replicate_app_Cons_same split: option.splits)
qed

lemma labels_of_dir:
  "py_int sid = Some l \<Longrightarrow>
   List.map_filter (\<lambda>(img, sid). py_int sid) (map (\<lambda>img. (img, sid)) ds) = replicate (length ds) l"
  by (induction ds) (simp_all add: List.map_filter_simps)

lemma map_filter_append:
  "List.map_filter f (xs @ ys) = List.map_filter f xs @ List.map_filter f ys"
  by (simp add: List.map_filter_def)

lemma load_entries_run:
  "list_all (\<lambda>(img, sid). py_int sid \<noteq> None)
     (concat (map (\<lambda>(sid, en). case en of File \<Rightarrow> [] | Dir fs \<Rightarrow> map (\<lambda>img. (img, sid)) (dir_samples fs)) es)) \<Longrightarrow>
   load_entries es (images, labels) =
     Inr (images @ map fst (concat (map (\<lambda>(sid, en). case en of File \<Rightarrow> [] | Dir fs \<Rightarrow> map (\<lambda>img. (img, sid)) (dir_samples fs)) es)),
          labels @ List.map_filter (\<lambda>(img, sid). py_int sid)
                     (concat (map (\<lambda>(sid, en). case en of File \<Rightarrow> [] | Dir fs \<Rightarrow> map (\<lambda>img. (img, sid)) (dir_samples fs)) es)))"
proof (induction es arbitrary: images labels)
  case Nil
  then show ?case by (simp add: List.map_filter_simps)
next
  case (Cons a es)
  obtain sid en where a: "a = (sid, en)" by (cases a)
  from Cons.prems have rest: "list_all (\<lambda>(img, sid). py_int sid \<noteq> None)
     (concat (map (\<lambda>(sid, en). case en of File \<Rightarrow> [] | Dir fs \<Rightarrow> map (\<lambda>img. (img, sid)) (dir_samples fs)) es))"
    by simp
  show ?case
  proof (cases en)
    case File
    with Cons.IH [OF rest] a show ?thesis by simp
  next
    case (Dir fs)
    show ?thesis
    proof (cases "dir_samples fs")
      case Nil
      with a Dir show ?thesis
        by (simp add: load_dir_none Cons.IH [OF rest])
    next
      case (Cons img imgs)
      with Cons.prems a Dir obtain l where l: "py_int sid = Some l" by auto
      show ?thesis
        using a Dir
        by (simp add: load_dir_some [OF l] Cons.IH [OF rest] map_filter_append labels_of_dir [OF l] comp_def)
    qed
  qed
qed

lemma load_dataset_full:
  "named_by_int e \<Longrightarrow> load_dataset e = Inr (full_set e)"
  using load_entries_run [of "faces_dir e" "[]" "[]"]
  by (simp add: named_by_int_def load_dataset_def full_set_def dataset_samples_def)

text \<open>
  Claim C5. When the dataset holds no sample, \<open>train_or_update_model\<close> returns False
  and leaves the engine as it was: the recognizer is not trained and the model file is
  neither written nor overwritten. When it holds at least one sample, in directories
  whose names \<open>int\<close> reads (as it reads every name \<open>capture_samples\<close> gives, see
  \<open>capture_samples_named_by_int\<close> below), it returns True, the recognizer is trained on
  the full set and the model file holds that artifact.
\<close>

theorem train_or_update_model_samples:
  "(dataset_samples e = [] \<longrightarrow> train_or_update_model e = (Inr False, e)) \<and>
   (dataset_samples e \<noteq> [] \<and> named_by_int e \<longrightarrow>
      train_or_update_model e =
        (Inr True, e\<lparr>recognizer := Some (full_set e), model_file := Some (full_set e)\<rparr>)
      \<and> length (fst (full_set e)) = length (dataset_samples e)
      \<and> length (snd (full_set e)) = length (dataset_samples e))"
proof (intro conjI impI)
  assume empty: "dataset_samples e = []"
  then have "named_by_int e" by (simp add: named_by_int_def)
  then have "load_dataset e = Inr (full_set e)" by (rule load_dataset_full)
  with empty show "train_or_update_model e = (Inr False, e)"
    by (simp add: train_or_update_model_def full_set_def List.map_filter_simps)
next
  assume h: "dataset_samples e \<noteq> [] \<and> named_by_int e"
  then have "load_dataset e = Inr (full_set e)" by (simp add: load_dataset_full)
  with h show "train_or_update_model e =
        (Inr True, e\<lparr>recognizer := Some (full_set e), model_file := Some (full_set e)\<rparr>)"
    by (simp add: train_or_update_model_def full_set_def)
next
  assume h: "dataset_samples e \<noteq> [] \<and> named_by_int e"
  show "length (fst (full_set e)) = length (dataset_samples e)" by (simp add: full_set_def)
next
  assume h: "dataset_samples e \<noteq> [] \<and> named_by_int e"
  then have "filter (\<lambda>x. (case x of (img, sid) \<Rightarrow> py_int sid) \<noteq> None) (dataset_samples e) = dataset_samples e"
    by (auto simp: named_by_int_def list_all_iff intro!: filter_True)
  then show "length (snd (full_set e)) = length (dataset_samples e)"
    by (simp add: full_set_def List.map_filter_def)
qed

lemma ext_examples: "has_image_ext ''3_000.png''" "has_image_ext ''3_001.PNG''" "py_int ''3'' = Some 3"
  by code_simp+

lemma separator_name:
  "\<not> named_by_int eng_separator"
  "train_or_update_model eng_separator = (Inl ValueError, eng_separator)"
  using py_int_examples(1)
  by (simp_all add: named_by_int_def dataset_samples_def dir_samples_def List.map_filter_simps
        train_or_update_model_def load_dataset_def eng_separator_def
        has_image_ext_def endswith_def lower_def lower_char_def)

theorem train_or_update_model_samples_witness:
  "dataset_samples eng_empty = [] \<and>
   train_or_update_model eng_empty = (Inr False, eng_empty) \<and>
   dataset_samples eng_one_sample = [(21, ''3'')] \<and> named_by_int eng_one_sample \<and>
   train_or_update_model eng_one_sample =
     (Inr True, eng_one_sample\<lparr>recognizer := Some ([21], [3]), model_file := Some ([21], [3])\<rparr>) \<and>
   \<not> named_by_int eng_separator \<and>
   train_or_update_model eng_separator = (Inl ValueError, eng_separator)"
proof -
  have e: "dataset_samples eng_empty = []"
    by (simp add: dataset_samples_def eng_empty_def)
  have s: "dataset_samples eng_one_sample = [(21, ''3'')]"
    by (simp add: dataset_samples_def eng_one_sample_def dir_samples_def List.map_filter_simps ext_examples)
  have n: "named_by_int eng_one_sample"
    by (simp add: named_by_int_def s ext_examples)
  have f: "full_set eng_one_sample = ([21], [3])"
    by (simp add: full_set_def s List.map_filter_simps ext_examples)
  from train_or_update_model_samples [of eng_empty] e
  have r1: "train_or_update_model eng_empty = (Inr False, eng_empty)" by blast
  from train_or_update_model_samples [of eng_one_sample] s n
  have r2: "train_or_update_model eng_one_sample =
     (Inr True, eng_one_sample\<lparr>recognizer := Some (full_set eng_one_sample),
                                model_file := Some (full_set eng_one_sample)\<rparr>)" by simp
  from e r1 s n r2 separator_name show ?thesis by (simp add: f)
qed

section \<open>Marking attendance\<close>

lemma fold_max_ge: "(i::int) \<le> fold max js i"
proof (induction js arbitrary: i)
  case Nil
  show ?case by simp
next
  case (Cons j js)
  have "i \<le> max j i" by simp
  also have "\<dots> \<le> fold max js (max j i)" by (rule Cons.IH)
  finally show ?case by simp
qed

lemma fold_max_mem: "x \<in> set js \<Longrightarrow> (x::int) \<le> fold max js i"
proof (induction js arbitrary: i)
  case Nil
  then show ?case by simp
next
  case (Cons j js)
  show ?case
  proof (cases "x = j")
    case True
    have "x \<le> max j i" using True by simp
    also have "\<dots> \<le> fold max js (max j i)" by (rule fold_max_ge)
    finally show ?thesis by simp
  next
    case False
    with Cons.prems have "x \<in> set js" by simp
    from Cons.IH [OF this] show ?thesis by simp
  qed
qed

lemma next_id_fresh: "next_id ids \<notin> set ids"
proof (cases ids)
  case Nil
  then show ?thesis by simp
next
  case (Cons i js)
  have "\<forall>x\<in>set (i # js). x < fold max js i + 1"
    using fold_max_ge [of i js] fold_max_mem [of _ js i] by fastforce
  then show ?thesis unfolding Cons next_id_def by auto
qed

lemma filter_single_iff:
  "filter P xs = [x] \<Longrightarrow> a \<in> set xs \<Longrightarrow> P a = (a = x)"
proof -
  assume f: "filter P xs = [x]" and a: "a \<in> set xs"
  have "set (filter P xs) = {x}" using f by simp
  then have "{y \<in> set xs. P y} = {x}" by simp
  with a show ?thesis by blast
qed

lemma distinct_key_iff:
  "distinct (map f xs) \<Longrightarrow> x \<in> set xs \<Longrightarrow> a \<in> set xs \<Longrightarrow> (f a = f x) = (a = x)"
  by (auto simp: distinct_map dest: inj_onD)

lemma mark_present_new:
  assumes q: "query_attendance db sid today = []"
    and stu: "get_student db sid = Some stu"
  shows "mark_present sid today now db =
     \<lparr>outcome = Inr (ok_body stu now), flashes = [],
      db_after = db\<lparr>attendance_rows := attendance_rows db @
          [\<lparr>a_id = next_id (map a_id (attendance_rows db)), student_id = sid, day = today,
            status = ''Present'', timestamp = Some now\<rparr>]\<rparr>,
      session_events =
          [AddAttendance \<lparr>a_id = next_id (map a_id (attendance_rows db)), student_id = sid, day = today,
                          status = ''Absent'', timestamp = None\<rparr>, Commit, Commit]\<rparr>"
proof -
  have fresh: "\<forall>a\<in>set (attendance_rows db). a_id a \<noteq> next_id (map a_id (attendance_rows db))"
    using next_id_fresh [of "map a_id (attendance_rows db)"] by (metis image_eqI set_map)
  then have m: "map (\<lambda>a. if a_id a = next_id (map a_id (attendance_rows db))
                        then a\<lparr>status := ''Present'', timestamp := Some now\<rparr> else a) (attendance_rows db)
                = attendance_rows db"
    by (simp add: map_idI)
  show ?thesis
    using q stu
    by (simp add: mark_present_def open_session_def add_attendance_def Let_def commit_def
          set_present_def get_student_def leave_def m ok_body_def)
qed

lemma mark_present_existing:
  assumes q: "query_attendance db sid today = [old]"
    and pk: "pk_attendance db"
    and stu: "get_student db sid = Some stu"
  shows "mark_present sid today now db =
     \<lparr>outcome = Inr (ok_body stu now), flashes = [],
      db_after = db\<lparr>attendance_rows :=
          map (\<lambda>a. if student_id a = sid \<and> day a = today then marked now a else a) (attendance_rows db)\<rparr>,
      session_events = [Commit]\<rparr>"
proof -
  from q have f: "filter (\<lambda>a. student_id a = sid \<and> day a = today) (attendance_rows db) = [old]"
    by (simp add: query_attendance_def)
  then have "old \<in> set (filter (\<lambda>a. student_id a = sid \<and> day a = today) (attendance_rows db))" by simp
  then have old: "old \<in> set (attendance_rows db)" by simp
  have "\<forall>a\<in>set (attendance_rows db). (a_id a = a_id old) = (student_id a = sid \<and> day a = today)"
    using distinct_key_iff [OF pk [unfolded pk_attendance_def] old] filter_single_iff [OF f] by blast
  then have m: "map (\<lambda>a. if a_id a = a_id old then a\<lparr>status := ''Present'', timestamp := Some now\<rparr> else a)
                 (attendance_rows db) =
             map (\<lambda>a. if student_id a = sid \<and> day a = today then marked now a else a) (attendance_rows db)"
    by (simp add: marked_def)
  show ?thesis
    using q stu
    by (simp add: mark_present_def open_session_def Let_def commit_def
          set_present_def get_student_def leave_def m ok_body_def)
qed

lemma query_after_new:
  "query_attendance db sid today = [] \<Longrightarrow>
   query_attendance (db\<lparr>attendance_rows := attendance_rows db @ [row]\<rparr>) sid today =
     (if student_id row = sid \<and> day row = today then [row] else [])"
  by (simp add: query_attendance_def)

lemma query_after_marked:
  "query_attendance (db\<lparr>attendance_rows :=
        map (\<lambda>a. if student_id a = sid \<and> day a = today then marked now a else a) (attendance_rows db)\<rparr>) sid today =
   map (marked now) (query_attendance db sid today)"
proof -
  have "filter (\<lambda>a. student_id a = sid \<and> day a = today)
          (map (\<lambda>a. if student_id a = sid \<and> day a = today then marked now a else a) rows) =
        map (marked now) (filter (\<lambda>a. student_id a = sid \<and> day a = today) rows)" for rows
    by (induction rows) (auto simp: marked_def)
  then show ?thesis by (simp add: query_attendance_def)
qed


text \<open>
  Claim C2. Let the engine recognize a label that is the key of a student, on a database
  that satisfies the primary key and \<open>uq_student_day\<close> of the attendance table. Then the
  mark-attendance API answers with status 200 and the student's roll number, name and
  the marking time; afterwards the student has exactly one row for today, with status
  'Present' and the marking time as timestamp. If a row existed, it is updated in place
  and no row is added; otherwise an 'Absent' row is added and committed, then set to
  'Present' and committed again. No other row and no student changes.
\<close>

theorem api_mark_attendance_marks_present:
  assumes rec: "recognize_once predict 70 e cam = Some (Inr (Some sid), e1)"
    and uq: "uq_student_day db" and pk: "pk_attendance db"
    and stu: "get_student db sid = Some stu"
  shows "\<exists>r. api_mark_attendance predict e cam today now db = Some (r, e1)
     \<and> outcome r = Inr (ok_body stu now)
     \<and> students (db_after r) = students db
     \<and> (\<exists>row. query_attendance (db_after r) sid today = [row]
                \<and> status row = ''Present'' \<and> timestamp row = Some now)
     \<and> attendance_rows (db_after r) =
         (if query_attendance db sid today = []
          then attendance_rows db @
                 [\<lparr>a_id = next_id (map a_id (attendance_rows db)), student_id = sid, day = today,
                   status = ''Present'', timestamp = Some now\<rparr>]
          else map (\<lambda>a. if student_id a = sid \<and> day a = today then marked now a else a)
                   (attendance_rows db))
     \<and> session_events r =
         (if query_attendance db sid today = []
          then [AddAttendance \<lparr>a_id = next_id (map a_id (attendance_rows db)), student_id = sid,
                                day = today, status = ''Absent'', timestamp = None\<rparr>, Commit, Commit]
          else [Commit])"
proof -
  have api: "api_mark_attendance predict e cam today now db = Some (mark_present sid today now db, e1)"
    using rec by (simp add: api_mark_attendance_def)
  have le: "length (query_attendance db sid today) \<le> 1" using uq by (rule query_le1)
  show ?thesis
  proof (cases "query_attendance db sid today")
    case Nil
    note r = mark_present_new [OF Nil stu, of now]
    show ?thesis
      unfolding api using Nil
      by (simp add: r query_after_new)
  next
    case (Cons old rest)
    with le have q: "query_attendance db sid today = [old]" by simp
    note r = mark_present_existing [OF q pk stu, of now]
    show ?thesis
      unfolding api using q
      by (simp add: r query_after_marked) (simp add: marked_def)
  qed
qed

lemma hms_1015: "strftime_HMS t1015 = ''10:15:07''"
  by code_simp

lemma recognize_asha: "recognize_once pred_id 70 eng_loaded cam_asha = Some (Inr (Some 2), eng_loaded)"
proof -
  have s: "first_stop cam_asha 0" by (simp add: first_stop_def cam_asha_def)
  have f: "faces_seen cam_asha 0 = [(2, 41)]" by (simp add: faces_seen_def cam_asha_def)
  show ?thesis
    by (simp add: recognize_once_def ensure_model_loaded_def eng_loaded_def
          recognize_loop_stops [OF s] f pred_id_def)
qed

theorem api_mark_attendance_marks_present_witness:
  "recognize_once pred_id 70 eng_loaded cam_asha = Some (Inr (Some 2), eng_loaded) \<and>
   uq_student_day db_seeded \<and> pk_attendance db_seeded \<and> get_student db_seeded 2 = Some stu2 \<and>
   (\<exists>r. api_mark_attendance pred_id eng_loaded cam_asha (2024, 1, 5) t1015 db_seeded = Some (r, eng_loaded)
      \<and> outcome r = Inr (Jsonify (JObj [(''ok'', JBool True), (''roll_no'', JStr ''R2''),
                                        (''name'', JStr ''Bala''), (''time'', JStr ''10:15:07'')]) 200)
      \<and> attendance_rows (db_after r) =
          [\<lparr>a_id = 1, student_id = 1, day = (2024, 1, 5), status = ''Present'', timestamp = Some t0930\<rparr>,
           \<lparr>a_id = 2, student_id = 2, day = (2024, 1, 5), status = ''Present'', timestamp = Some t1015\<rparr>]
      \<and> session_events r = [Commit])"
proof -
  have h1: "recognize_once pred_id 70 eng_loaded cam_asha = Some (Inr (Some 2), eng_loaded)"
    by (rule recognize_asha)
  have h2: "uq_student_day db_seeded" by (simp add: uq_student_day_def db_seeded_def db0_def)
  have h3: "pk_attendance db_seeded" by (simp add: pk_attendance_def db_seeded_def db0_def)
  have h4: "get_student db_seeded 2 = Some stu2"
    by (simp add: get_student_def db_seeded_def db0_def stu1_def stu2_def)
  have q: "query_attendance db_seeded 2 (2024, 1, 5) \<noteq> []"
    by (simp add: query_attendance_def db_seeded_def db0_def)
  from api_mark_attendance_marks_present [OF h1 h2 h3 h4, of "(2024, 1, 5)" t1015]
  obtain r where r: "api_mark_attendance pred_id eng_loaded cam_asha (2024, 1, 5) t1015 db_seeded = Some (r, eng_loaded)"
    "outcome r = Inr (ok_body stu2 t1015)"
    "attendance_rows (db_after r) =
         map (\<lambda>a. if student_id a = 2 \<and> day a = (2024, 1, 5) then marked t1015 a else a)
                   (attendance_rows db_seeded)"
    "session_events r = [Commit]"
    using q by auto
  have o: "ok_body stu2 t1015 = Jsonify (JObj [(''ok'', JBool True), (''roll_no'', JStr ''R2''),
                                        (''name'', JStr ''Bala''), (''time'', JStr ''10:15:07'')]) 200"
    by (simp add: ok_body_def stu2_def hms_1015)
  have m: "map (\<lambda>a. if student_id a = 2 \<and> day a = (2024, 1, 5) then marked t1015 a else a)
                   (attendance_rows db_seeded) =
          [\<lparr>a_id = 1, student_id = 1, day = (2024, 1, 5), status = ''Present'', timestamp = Some t0930\<rparr>,
           \<lparr>a_id = 2, student_id = 2, day = (2024, 1, 5), status = ''Present'', timestamp = Some t1015\<rparr>]"
    by (simp add: db_seeded_def db0_def marked_def)
  from h1 h2 h3 h4 r o m show ?thesis by auto
qed

text \<open>
  Claim C7. When the engine returns no match, the mark-attendance API answers with the
  body \<open>{ok: false, msg: 'No confident face match'}\<close> and status 400; it opens no
  session, and the database is the one it was given.
\<close>

theorem api_mark_attendance_no_match:
  assumes "recognize_once predict 70 e cam = Some (Inr None, e1)"
  shows "api_mark_attendance predict e cam today now db =
           Some (\<lparr>outcome = Inr (Jsonify (JObj [(''ok'', JBool False),
                                                (''msg'', JStr ''No confident face match'')]) 400),
                  flashes = [], db_after = db, session_events = []\<rparr>, e1)"
  using assms by (simp add: api_mark_attendance_def no_session_def)

theorem api_mark_attendance_no_match_witness:
  "recognize_once pred_id 70 eng_loaded cam_dark = Some (Inr None, eng_loaded) \<and>
   api_mark_attendance pred_id eng_loaded cam_dark (2024, 1, 5) t1015 db0 =
     Some (\<lparr>outcome = Inr (Jsonify (JObj [(''ok'', JBool False),
                                          (''msg'', JStr ''No confident face match'')]) 400),
            flashes = [], db_after = db0, session_events = []\<rparr>, eng_loaded)"
proof -
  have s: "first_stop cam_dark 0" by (simp add: first_stop_def cam_dark_def)
  have f: "faces_seen cam_dark 0 = []" by (simp add: faces_seen_def cam_dark_def)
  have h: "recognize_once pred_id 70 eng_loaded cam_dark = Some (Inr None, eng_loaded)"
    by (simp add: recognize_once_def ensure_model_loaded_def eng_loaded_def
          recognize_loop_stops [OF s] f pred_id_def)
  from h api_mark_attendance_no_match [OF h, of "(2024, 1, 5)" t1015 db0] show ?thesis by simp
qed

section \<open>The timestamp invariant\<close>

lemma ensure_rows_loop_adds_absent:
  "ensure_rows_loop sts d s = Inr s' \<Longrightarrow>
   committed s' = committed s \<and> students (working s') = students (working s) \<and>
   (\<exists>new. attendance_rows (working s') = attendance_rows (working s) @ new \<and>
          list_all (\<lambda>a. status a = ''Absent'' \<and> timestamp a = None) new)"
proof (induction sts arbitrary: s)
  case Nil
  then show ?case by simp
next
  case (Cons st sts)
  show ?case
  proof (cases "one_or_none (query_attendance (working s) (s_id st) d)")
    case (Inl err)
    with Cons.prems show ?thesis by simp
  next
    case (Inr found)
    show ?thesis
    proof (cases found)
      case (Some ex)
      with Inr Cons.prems have "ensure_rows_loop sts d s = Inr s'" by simp
      from Cons.IH [OF this] show ?thesis .
    next
      case None
      show ?thesis
      proof (cases "add_attendance s (s_id st) d ''Absent''")
        case (Inl err)
        with Inr None Cons.prems show ?thesis by simp
      next
        case add: (Inr p)
        obtain row s1 where p: "p = (row, s1)" by (cases p)
        from add p have s1: "committed s1 = committed s" "students (working s1) = students (working s)"
          "attendance_rows (working s1) = attendance_rows (working s) @ [row]"
          "status row = ''Absent''" "timestamp row = None"
          by (auto simp: add_attendance_def Let_def split: if_splits)
        from Inr None add p Cons.prems have "ensure_rows_loop sts d s1 = Inr s'" by simp
        from Cons.IH [OF this] obtain new where
          n: "committed s' = committed s1" "students (working s') = students (working s1)"
             "attendance_rows (working s') = attendance_rows (working s1) @ new"
             "list_all (\<lambda>a. status a = ''Absent'' \<and> timestamp a = None) new"
          by blast
        have "attendance_rows (working s') = attendance_rows (working s) @ (row # new)"
          using n s1 by simp
        moreover have "list_all (\<lambda>a. status a = ''Absent'' \<and> timestamp a = None) (row # new)"
          using n s1 by simp
        ultimately show ?thesis using n s1 by (simp only:) blast
      qed
    qed
  qed
qed

lemma ensure_day_rows_adds_absent:
  "ensure_day_rows s d = Inr s' \<Longrightarrow>
   committed s' = working s' \<and> students (working s') = students (working s) \<and>
   (\<exists>new. attendance_rows (working s') = attendance_rows (working s) @ new \<and>
          list_all (\<lambda>a. status a = ''Absent'' \<and> timestamp a = None) new)"
proof -
  assume r: "ensure_day_rows s d = Inr s'"
  then obtain s1 where l: "ensure_rows_loop (students (working s)) d s = Inr s1" and s': "s' = commit s1"
    by (auto simp: ensure_day_rows_def split: sum.splits)
  from ensure_rows_loop_adds_absent [OF l] s' show ?thesis by (simp add: commit_def)
qed

lemma present_append_absent:
  "present_has_timestamp db \<Longrightarrow> list_all (\<lambda>a. status a = ''Absent'' \<and> timestamp a = None) new \<Longrightarrow>
   attendance_rows db' = attendance_rows db @ new \<Longrightarrow> present_has_timestamp db'"
  by (auto simp: present_has_timestamp_def list_all_iff)

lemma ensure_day_rows_keeps:
  "ensure_day_rows (open_session db) d = Inr s' \<Longrightarrow> present_has_timestamp db \<Longrightarrow>
   present_has_timestamp (committed s')"
proof -
  assume r: "ensure_day_rows (open_session db) d = Inr s'" and i: "present_has_timestamp db"
  from ensure_day_rows_adds_absent [OF r] obtain new where
    "committed s' = working s'" "attendance_rows (working s') = attendance_rows db @ new"
    "list_all (\<lambda>a. status a = ''Absent'' \<and> timestamp a = None) new"
    by (auto simp: open_session_def)
  with present_append_absent [OF i, of new "working s'"] show ?thesis by simp
qed

lemma dashboard_keeps:
  "present_has_timestamp db \<Longrightarrow> present_has_timestamp (db_after (dashboard today db))"
  by (auto simp: dashboard_def Let_def leave_def open_session_def [of db]
           dest: ensure_day_rows_keeps [unfolded open_session_def] split: sum.splits)

lemma attendance_page_keeps:
  "present_has_timestamp db \<Longrightarrow> present_has_timestamp (db_after (attendance_page today db))"
  by (auto simp: attendance_page_def Let_def leave_def open_session_def [of db]
           dest: ensure_day_rows_keeps [unfolded open_session_def] split: sum.splits)

lemma mark_present_rows:
  "a \<in> set (attendance_rows (db_after (mark_present sid today now db))) \<Longrightarrow>
   a \<in> set (attendance_rows db) \<or> (status a = ''Present'' \<and> timestamp a = Some now)"
  by (auto simp: mark_present_def Let_def leave_def open_session_def add_attendance_def
                 commit_def set_present_def
           split: sum.splits option.splits if_splits prod.splits)

lemma mark_present_keeps:
  "present_has_timestamp db \<Longrightarrow> present_has_timestamp (db_after (mark_present sid today now db))"
  using mark_present_rows [of _ sid today now db]
  by (fastforce simp: present_has_timestamp_def list_all_iff)

lemma add_student_attendance:
  "add_student s roll nm em kl sec = Inr (st, s1) \<Longrightarrow>
   attendance_rows (working s1) = attendance_rows (working s) \<and> committed s1 = committed s"
  by (auto simp: add_student_def Let_def split: if_splits)

lemma flush_student_attendance:
  "flush_student s st = Inr s1 \<Longrightarrow>
   attendance_rows (working s1) = attendance_rows (working s) \<and> committed s1 = committed s"
  by (auto simp: flush_student_def Let_def split: if_splits)

lemma register_attendance_unchanged:
  "register req e cam db = Some (r, e') \<Longrightarrow> attendance_rows (db_after r) = attendance_rows db"
  unfolding register_def Let_def
  by (auto simp: leave_def no_session_def open_session_def commit_def
           dest!: add_student_attendance flush_student_attendance
           split: if_splits option.splits sum.splits prod.splits)

lemma student_edit_attendance_unchanged:
  "student_edit sid req e cam db = Some (r, e') \<Longrightarrow> attendance_rows (db_after r) = attendance_rows db"
  unfolding student_edit_def Let_def
  by (auto simp: leave_def no_session_def open_session_def commit_def
           dest!: flush_student_attendance
           split: if_splits option.splits sum.splits prod.splits)


lemma present_unchanged:
  "present_has_timestamp db \<Longrightarrow> attendance_rows db' = attendance_rows db \<Longrightarrow> present_has_timestamp db'"
  by (simp add: present_has_timestamp_def)

text \<open>
  Claim C8. Every operation of the web layer keeps the invariant that a 'Present' row
  has a timestamp, whatever its outcome: the views that seed the day's rows, the reads,
  registration, editing and marking. Seeding only appends rows that are 'Absent' and
  have no timestamp; after marking, every row is either a row that was there before or
  a 'Present' row whose timestamp is the marking time.
\<close>

theorem present_rows_keep_timestamp:
  assumes "present_has_timestamp db"
  shows "present_has_timestamp (db_after (dashboard today db))
    \<and> present_has_timestamp (db_after (attendance_page today db))
    \<and> present_has_timestamp (db_after (api_attendance_today today db))
    \<and> present_has_timestamp (db_after (download_attendance_for_date d db))
    \<and> present_has_timestamp (db_after (download_attendance_pdf d db))
    \<and> (\<forall>r e'. api_mark_attendance predict e cam today now db = Some (r, e') \<longrightarrow>
                present_has_timestamp (db_after r))
    \<and> (\<forall>r e'. register req e cam db = Some (r, e') \<longrightarrow> present_has_timestamp (db_after r))
    \<and> (\<forall>r e'. student_edit sid req e cam db = Some (r, e') \<longrightarrow> present_has_timestamp (db_after r))
    \<and> (\<forall>s'. ensure_day_rows (open_session db) d = Inr s' \<longrightarrow>
           (\<exists>new. attendance_rows (committed s') = attendance_rows db @ new
                  \<and> list_all (\<lambda>a. status a = ''Absent'' \<and> timestamp a = None) new))
    \<and> (\<forall>a\<in>set (attendance_rows (db_after (mark_present sid today now db))).
           a \<in> set (attendance_rows db) \<or> (status a = ''Present'' \<and> timestamp a = Some now))"
proof -
  have c1: "present_has_timestamp (db_after (dashboard today db))"
    using assms by (rule dashboard_keeps)
  have c2: "present_has_timestamp (db_after (attendance_page today db))"
    using assms by (rule attendance_page_keeps)
  have c3: "present_has_timestamp (db_after (api_attendance_today today db))"
    using assms by (simp add: api_attendance_today_def Let_def leave_def open_session_def)
  have c4: "present_has_timestamp (db_after (download_attendance_for_date d db))"
    using assms by (simp add: download_attendance_for_date_def Let_def leave_def open_session_def)
  have c5: "present_has_timestamp (db_after (download_attendance_pdf d db))"
    using assms by (simp add: download_attendance_pdf_def Let_def leave_def open_session_def)
  have c6: "\<forall>r e'. api_mark_attendance predict e cam today now db = Some (r, e') \<longrightarrow>
                present_has_timestamp (db_after r)"
    using assms mark_present_keeps [OF assms, of sid' today now for sid']
    by (auto simp: api_mark_attendance_def no_session_def split: option.splits sum.splits prod.splits)
  have c7: "\<forall>r e'. register req e cam db = Some (r, e') \<longrightarrow> present_has_timestamp (db_after r)"
    using present_unchanged [OF assms] register_attendance_unchanged by blast
  have c8: "\<forall>r e'. student_edit sid req e cam db = Some (r, e') \<longrightarrow> present_has_timestamp (db_after r)"
    using present_unchanged [OF assms] student_edit_attendance_unchanged by blast
  have c9: "\<forall>s'. ensure_day_rows (open_session db) d = Inr s' \<longrightarrow>
           (\<exists>new. attendance_rows (committed s') = attendance_rows db @ new
                  \<and> list_all (\<lambda>a. status a = ''Absent'' \<and> timestamp a = None) new)"
  proof (intro allI impI)
    fix s' assume "ensure_day_rows (open_session db) d = Inr s'"
    from ensure_day_rows_adds_absent [OF this]
    show "\<exists>new. attendance_rows (committed s') = attendance_rows db @ new
                  \<and> list_all (\<lambda>a. status a = ''Absent'' \<and> timestamp a = None) new"
      by (simp add: open_session_def)
  qed
  have c10: "\<forall>a\<in>set (attendance_rows (db_after (mark_present sid today now db))).
           a \<in> set (attendance_rows db) \<or> (status a = ''Present'' \<and> timestamp a = Some now)"
    using mark_present_rows by blast
  from c1 c2 c3 c4 c5 c6 c7 c8 c9 c10 show ?thesis by (intro conjI)
qed

theorem present_rows_keep_timestamp_witness:
  "present_has_timestamp db_seeded \<and>
   present_has_timestamp (db_after (dashboard (2024, 1, 6) db_seeded)) \<and>
   present_has_timestamp (db_after (mark_present 2 (2024, 1, 5) t1015 db_seeded)) \<and>
   timestamp (attendance_rows (db_after (mark_present 2 (2024, 1, 5) t1015 db_seeded)) ! 1) = Some t1015"
proof -
  have h: "present_has_timestamp db_seeded"
    by (simp add: present_has_timestamp_def db_seeded_def db0_def)
  have m: "present_has_timestamp (db_after (mark_present 2 (2024, 1, 5) t1015 db_seeded))"
    using present_rows_keep_timestamp [OF h, of "(2024, 1, 5)" _ pred_id eng_loaded cam_asha t1015]
      recognize_asha
    by (simp add: api_mark_attendance_def)
  have d: "present_has_timestamp (db_after (dashboard (2024, 1, 6) db_seeded))"
    using present_rows_keep_timestamp [OF h, of "(2024, 1, 6)"] by blast
  have t: "timestamp (attendance_rows (db_after (mark_present 2 (2024, 1, 5) t1015 db_seeded)) ! 1) = Some t1015"
    by (simp add: mark_present_def Let_def open_session_def query_attendance_def db_seeded_def db0_def
          commit_def set_present_def get_student_def leave_def stu1_def stu2_def)
  from h m d t show ?thesis by blast
qed

section \<open>Registration and editing\<close>

lemma roll_query_single:
  assumes "uq_roll_no db" "st \<in> set (students db)"
  shows "filter (\<lambda>x. roll_no x = roll_no st) (students db) = [st]"
proof -
  have "\<And>xs. distinct (map roll_no xs) \<Longrightarrow> st \<in> set xs \<Longrightarrow>
          filter (\<lambda>x. roll_no x = roll_no st) xs = [st]"
  proof -
    fix xs :: "student list"
    show "distinct (map roll_no xs) \<Longrightarrow> st \<in> set xs \<Longrightarrow> filter (\<lambda>x. roll_no x = roll_no st) xs = [st]"
    proof (induction xs)
      case Nil
      then show ?case by simp
    next
      case (Cons x xs)
      show ?case
      proof (cases "x = st")
        case True
        with Cons.prems have "roll_no st \<notin> roll_no ` set xs" by simp
        then have "\<forall>y\<in>set xs. roll_no y \<noteq> roll_no st" by (metis imageI)
        then have "filter (\<lambda>x. roll_no x = roll_no st) xs = []" by (simp add: filter_empty_conv)
        with True show ?thesis by simp
      next
        case False
        with Cons.prems have m: "st \<in> set xs" by simp
        from Cons.prems have "roll_no x \<notin> roll_no ` set xs" by simp
        with m have "roll_no x \<noteq> roll_no st" by (metis imageI)
        with Cons.IH m Cons.prems show ?thesis by simp
      qed
    qed
  qed
  with assms show ?thesis by (simp add: uq_roll_no_def)
qed

text \<open>
  Claim C6. Take a registration request (a POST with the fields \<open>roll_no\<close> and
  \<open>name\<close>) whose roll number, stripped of white space as \<open>str.strip\<close> does, is that
  of an existing student, on a database with unique roll numbers. Then \<open>register\<close> flashes the warning 'Roll No already
  exists' and redirects to the registration form; the database is unchanged, the session
  adds and commits nothing, and the engine is unchanged whatever the camera would
  deliver: no capture and no training is attempted.
\<close>

theorem register_duplicate_roll_no:
  assumes "http_method req = ''POST''"
    and "form req ''roll_no'' = Some r" and "form req ''name'' = Some n"
    and "uq_roll_no db"
    and "st \<in> set (students db)" and "roll_no st = strip r"
  shows "register req e cam db =
           Some (\<lparr>outcome = Inr (Redirect ''register''),
                  flashes = [(''Roll No already exists'', ''warning'')],
                  db_after = db, session_events = []\<rparr>, e)"
proof -
  have "filter (\<lambda>x. roll_no x = strip r) (students db) = [st]"
    using roll_query_single [OF assms(4,5)] assms(6) by simp
  then show ?thesis
    using assms(1,2,3) by (simp add: register_def Let_def open_session_def leave_def)
qed

lemma strip_R1: "strip '' R1 '' = ''R1''"
  by code_simp

theorem register_duplicate_roll_no_witness:
  "http_method req_dup = ''POST'' \<and> form req_dup ''roll_no'' = Some '' R1 '' \<and>
   form req_dup ''name'' = Some ''Chitra'' \<and> uq_roll_no db0 \<and> stu1 \<in> set (students db0) \<and>
   roll_no stu1 = strip '' R1 '' \<and>
   register req_dup eng_empty cam_two db0 =
     Some (\<lparr>outcome = Inr (Redirect ''register''),
            flashes = [(''Roll No already exists'', ''warning'')],
            db_after = db0, session_events = []\<rparr>, eng_empty) \<and>
   form req_dup_nbsp ''roll_no'' = Some (''R1'' @ [CHR 0xA0]) \<and>
   register req_dup_nbsp eng_empty cam_two db0 =
     Some (\<lparr>outcome = Inr (Redirect ''register''),
            flashes = [(''Roll No already exists'', ''warning'')],
            db_after = db0, session_events = []\<rparr>, eng_empty)"
proof -
  have h1: "http_method req_dup = ''POST''" by (simp add: req_dup_def)
  have h2: "form req_dup ''roll_no'' = Some '' R1 ''" by (simp add: req_dup_def)
  have h3: "form req_dup ''name'' = Some ''Chitra''" by (simp add: req_dup_def)
  have h4: "uq_roll_no db0" by (simp add: uq_roll_no_def db0_def stu1_def stu2_def)
  have h5: "stu1 \<in> set (students db0)" by (simp add: db0_def)
  have h6: "roll_no stu1 = strip '' R1 ''" by (simp add: strip_R1 stu1_def)
  have g1: "http_method req_dup_nbsp = ''POST''" by (simp add: req_dup_nbsp_def)
  have g2: "form req_dup_nbsp ''roll_no'' = Some (''R1'' @ [CHR 0xA0])" by (simp add: req_dup_nbsp_def)
  have g3: "form req_dup_nbsp ''name'' = Some ''Chitra''" by (simp add: req_dup_nbsp_def)
  have g6: "roll_no stu1 = strip (''R1'' @ [CHR 0xA0])" using strip_examples(1) by (simp add: stu1_def)
  from h1 h2 h3 h4 h5 h6 g2
    register_duplicate_roll_no [OF h1 h2 h3 h4 h5 h6, of eng_empty cam_two]
    register_duplicate_roll_no [OF g1 g2 g3 h4 h5 g6, of eng_empty cam_two]
  show ?thesis by simp
qed

text \<open>
  Claim C9 fails on \<open>student_edit\<close>: it assigns the submitted roll number without a
  check, so the commit's UPDATE meets the unique constraint. Editing the second student
  of \<open>db0\<close> to the roll number of the first raises IntegrityError.
\<close>

theorem student_edit_duplicate_roll_no:
  "student_edit 2 req_edit eng_empty cam_two db0 =
     Some (\<lparr>outcome = Inl IntegrityError, flashes = [], db_after = db0, session_events = []\<rparr>,
           eng_empty)"
proof -
  have s: "strip ''R1'' = ''R1''" "strip ''Bala'' = ''Bala''" "strip [] = []" by code_simp+
  show ?thesis
    by (simp add: student_edit_def Let_def open_session_def get_student_def db0_def stu1_def stu2_def
          req_edit_def form_get_def s flush_student_def leave_def)
qed

section \<open>Readers of a day's attendance\<close>

lemma iso_0105: "isoformat (2024, 1, 5) = ''2024-01-05''" "isoformat (2024, Suc 0, 5) = ''2024-01-05''"
  by code_simp+

text \<open>
  Claim C3 fails on three of the five readers. With one registered student and no
  attendance row yet, the JSON endpoint and both exports do not call \<open>ensure_day_rows\<close>:
  they report no row at all and leave the database without one, while the attendance
  page, which does call it, lists the student as 'Absent' and stores the row.
\<close>

theorem readers_without_day_rows:
  "api_attendance_today (2024, 1, 5) db_fresh =
     \<lparr>outcome = Inr (Jsonify (JObj [(''total'', JInt 0), (''present'', JInt 0), (''absent'', JInt 0),
                                    (''rows'', JList [])]) 200),
      flashes = [], db_after = db_fresh, session_events = []\<rparr> \<and>
   download_attendance_for_date (2024, 1, 5) db_fresh =
     \<lparr>outcome = Inr (SendFile ''data/exports/attendance_2024-01-05.xlsx'' []),
      flashes = [], db_after = db_fresh, session_events = []\<rparr> \<and>
   download_attendance_pdf (2024, 1, 5) db_fresh =
     \<lparr>outcome = Inr (SendFile ''data/exports/attendance_2024-01-05.pdf'' []),
      flashes = [], db_after = db_fresh, session_events = []\<rparr> \<and>
   attendance_page (2024, 1, 5) db_fresh =
     \<lparr>outcome = Inr (Render ''attendance.html''
                        [(''today'', JStr ''2024-01-05''),
                         (''table'', JList [JObj [(''roll_no'', JStr ''R1''), (''name'', JStr ''Asha''),
                                                  (''status'', JStr ''Absent''), (''timestamp'', JStr [])]])]),
      flashes = [],
      db_after = db_fresh\<lparr>attendance_rows :=
                   [\<lparr>a_id = 1, student_id = 1, day = (2024, 1, 5), status = ''Absent'', timestamp = None\<rparr>]\<rparr>,
      session_events = [AddAttendance \<lparr>a_id = 1, student_id = 1, day = (2024, 1, 5),
                                        status = ''Absent'', timestamp = None\<rparr>, Commit]\<rparr>"
proof (intro conjI)
  show "api_attendance_today (2024, 1, 5) db_fresh =
     \<lparr>outcome = Inr (Jsonify (JObj [(''total'', JInt 0), (''present'', JInt 0), (''absent'', JInt 0),
                                    (''rows'', JList [])]) 200),
      flashes = [], db_after = db_fresh, session_events = []\<rparr>"
    by (simp add: api_attendance_today_def Let_def open_session_def attendance_join_def db_fresh_def leave_def)
  show "download_attendance_for_date (2024, 1, 5) db_fresh =
     \<lparr>outcome = Inr (SendFile ''data/exports/attendance_2024-01-05.xlsx'' []),
      flashes = [], db_after = db_fresh, session_events = []\<rparr>"
    by (simp add: download_attendance_for_date_def Let_def open_session_def export_lines_def
          attendance_join_def db_fresh_def leave_def iso_0105 EXPORTS_DIR_def DATA_DIR_def)
  show "download_attendance_pdf (2024, 1, 5) db_fresh =
     \<lparr>outcome = Inr (SendFile ''data/exports/attendance_2024-01-05.pdf'' []),
      flashes = [], db_after = db_fresh, session_events = []\<rparr>"
    by (simp add: download_attendance_pdf_def Let_def open_session_def export_lines_def
          attendance_join_def db_fresh_def leave_def iso_0105 EXPORTS_DIR_def DATA_DIR_def)
  show "attendance_page (2024, 1, 5) db_fresh =
     \<lparr>outcome = Inr (Render ''attendance.html''
                        [(''today'', JStr ''2024-01-05''),
                         (''table'', JList [JObj [(''roll_no'', JStr ''R1''), (''name'', JStr ''Asha''),
                                                  (''status'', JStr ''Absent''), (''timestamp'', JStr [])]])]),
      flashes = [],
      db_after = db_fresh\<lparr>attendance_rows :=
                   [\<lparr>a_id = 1, student_id = 1, day = (2024, 1, 5), status = ''Absent'', timestamp = None\<rparr>]\<rparr>,
      session_events = [AddAttendance \<lparr>a_id = 1, student_id = 1, day = (2024, 1, 5),
                                        status = ''Absent'', timestamp = None\<rparr>, Commit]\<rparr>"
    by (simp add: attendance_page_def Let_def open_session_def ensure_day_rows_def
          query_attendance_def add_attendance_def next_id_def commit_def attendance_join_def
          db_fresh_def stu1_def leave_def iso_0105 ts_text_def)
qed

section \<open>The names of the sample directories\<close>

text \<open>
  The hypothesis of the training theorem is an invariant of the engine: the directory
  \<open>capture_samples\<close> writes to is named \<open>str(student_id)\<close>, which \<open>int\<close> reads back, and
  training does not touch the directories.
\<close>

lemma digit_char_props:
  "d < 10 \<Longrightarrow> is_digit (digit_char d) \<and> (of_char (digit_char d) :: nat) - 48 = d
     \<and> \<not> int_isspace (digit_char d) \<and> digit_char d \<noteq> CHR ''-'' \<and> digit_char d \<noteq> CHR ''+''"
proof -
  assume "d < 10"
  then have "d = 0 \<or> d = 1 \<or> d = 2 \<or> d = 3 \<or> d = 4 \<or> d = 5 \<or> d = 6 \<or> d = 7 \<or> d = 8 \<or> d = 9"
    by arith
  then show ?thesis
    by (elim disjE) (simp_all add: digit_char_def is_digit_def int_isspace_def)
qed

lemma int_digits_all:
  "list_all is_digit cs \<Longrightarrow> int_digits cs prev acc = (if cs = [] \<and> \<not> prev then None else Some (digits_value acc cs))"
  by (induction cs arbitrary: prev acc) (auto simp: digits_value_def)

lemma str_nat_digits:
  "list_all is_digit (str_nat n) \<and> str_nat n \<noteq> [] \<and> digits_value 0 (str_nat n) = n
     \<and> list_all (\<lambda>c. \<not> int_isspace c) (str_nat n) \<and> hd (str_nat n) \<noteq> CHR ''-'' \<and> hd (str_nat n) \<noteq> CHR ''+''"
proof (induction n rule: str_nat.induct)
  case (1 n)
  show ?case
  proof (cases "n < 10")
    case True
    with digit_char_props [of n] show ?thesis
      by (subst (1 2 3 4 5 6) str_nat.simps) (simp add: digits_value_def)
  next
    case False
    have m: "n mod 10 < 10" by simp
    from 1 [OF False] digit_char_props [OF m] False show ?thesis
      by (subst (1 2 3 4 5 6) str_nat.simps) (simp add: digits_value_def)
  qed
qed


lemma dropWhile_none: "list_all (\<lambda>c. \<not> P c) xs \<Longrightarrow> dropWhile P xs = xs"
  by (cases xs) simp_all

lemma int_strip_no_space:
  "list_all (\<lambda>c. \<not> int_isspace c) s \<Longrightarrow>
   rev (dropWhile int_isspace (rev (dropWhile int_isspace s))) = s"
proof -
  assume a: "list_all (\<lambda>c. \<not> int_isspace c) s"
  then have "list_all (\<lambda>c. \<not> int_isspace c) (rev s)" by (simp add: list_all_iff)
  then have "dropWhile int_isspace (rev s) = rev s" by (rule dropWhile_none)
  with dropWhile_none [OF a] show ?thesis by simp
qed

lemma py_int_str_int: "py_int (str_int i) = Some i"
proof (cases "i < 0")
  case True
  let ?ds = "str_nat (nat (- i))"
  from str_nat_digits [of "nat (- i)"] have d: "list_all is_digit ?ds" "?ds \<noteq> []"
    "digits_value 0 ?ds = nat (- i)" "list_all (\<lambda>c. \<not> int_isspace c) ?ds" by simp_all
  have "\<not> int_isspace CHR ''-''" by (simp add: int_isspace_def)
  with d(4) have "rev (dropWhile int_isspace (rev (dropWhile int_isspace (CHR ''-'' # ?ds)))) = CHR ''-'' # ?ds"
    by (intro int_strip_no_space) simp
  with True d show ?thesis
    by (simp add: py_int_def str_int_def int_digits_all)
next
  case False
  let ?ds = "str_nat (nat i)"
  from str_nat_digits [of "nat i"] have d: "list_all is_digit ?ds" "?ds \<noteq> []"
    "digits_value 0 ?ds = nat i" "list_all (\<lambda>c. \<not> int_isspace c) ?ds"
    "hd ?ds \<noteq> CHR ''-''" "hd ?ds \<noteq> CHR ''+''" by simp_all
  from d(2) obtain c cs where cs: "?ds = c # cs" by (cases ?ds) auto
  with d(5,6) have c: "c \<noteq> CHR ''-''" "c \<noteq> CHR ''+''" by simp_all
  have st: "rev (dropWhile int_isspace (rev (dropWhile int_isspace ?ds))) = ?ds"
    using d(4) by (rule int_strip_no_space)
  have "int_digits (c # cs) False 0 = Some (nat i)"
    using int_digits_all [OF d(1), of False 0] d(2,3) cs by simp
  with False st cs c show ?thesis
    by (simp add: py_int_def str_int_def)
qed

lemma set_set_dir: "set (set_dir d fs es) \<subseteq> insert (d, Dir fs) (set es)"
  by (induction es) (auto split: if_splits)

lemma named_by_int_iff:
  "named_by_int e = (\<forall>(nm, en)\<in>set (faces_dir e). \<forall>fs. en = Dir fs \<and> dir_samples fs \<noteq> [] \<longrightarrow> py_int nm \<noteq> None)"
proof -
  have "set (dataset_samples e) =
          {(img, nm) |img nm fs. (nm, Dir fs) \<in> set (faces_dir e) \<and> img \<in> set (dir_samples fs)}"
    by (auto simp: dataset_samples_def split: entry.splits)
  then have n: "named_by_int e =
      (\<forall>img nm fs. (nm, Dir fs) \<in> set (faces_dir e) \<and> img \<in> set (dir_samples fs) \<longrightarrow> py_int nm \<noteq> None)"
    unfolding named_by_int_def list_all_iff by auto
  have "(\<forall>img nm fs. (nm, Dir fs) \<in> set (faces_dir e) \<and> img \<in> set (dir_samples fs) \<longrightarrow> py_int nm \<noteq> None) =
        (\<forall>nm fs. (nm, Dir fs) \<in> set (faces_dir e) \<and> dir_samples fs \<noteq> [] \<longrightarrow> py_int nm \<noteq> None)"
  proof
    assume a: "\<forall>img nm fs. (nm, Dir fs) \<in> set (faces_dir e) \<and> img \<in> set (dir_samples fs) \<longrightarrow> py_int nm \<noteq> None"
    show "\<forall>nm fs. (nm, Dir fs) \<in> set (faces_dir e) \<and> dir_samples fs \<noteq> [] \<longrightarrow> py_int nm \<noteq> None"
    proof (intro allI impI)
      fix nm fs assume h: "(nm, Dir fs) \<in> set (faces_dir e) \<and> dir_samples fs \<noteq> []"
      then obtain img where "img \<in> set (dir_samples fs)" by (cases "dir_samples fs") auto
      with a h show "py_int nm \<noteq> None" by blast
    qed
  next
    assume a: "\<forall>nm fs. (nm, Dir fs) \<in> set (faces_dir e) \<and> dir_samples fs \<noteq> [] \<longrightarrow> py_int nm \<noteq> None"
    show "\<forall>img nm fs. (nm, Dir fs) \<in> set (faces_dir e) \<and> img \<in> set (dir_samples fs) \<longrightarrow> py_int nm \<noteq> None"
    proof (intro allI impI)
      fix img nm fs assume h: "(nm, Dir fs) \<in> set (faces_dir e) \<and> img \<in> set (dir_samples fs)"
      then have "dir_samples fs \<noteq> []" by auto
      with a h show "py_int nm \<noteq> None" by blast
    qed
  qed
  with n show ?thesis by auto
qed

lemma capture_samples_named_by_int:
  assumes "capture_samples e cam sid n = Some (r, e')" and "named_by_int e"
  shows "named_by_int e'"
proof -
  from assms(1) obtain fs where e': "e' = e \<or> e' = e\<lparr>faces_dir := set_dir (str_int sid) fs (faces_dir e)\<rparr>"
    by (auto simp: capture_samples_def Let_def split: option.splits entry.splits prod.splits)
  show ?thesis
  proof (cases "e' = e")
    case True
    with assms(2) show ?thesis by simp
  next
    case False
    with e' have f: "faces_dir e' = set_dir (str_int sid) fs (faces_dir e)" by auto
    have "py_int nm \<noteq> None"
      if m: "(nm, Dir fs') \<in> set (set_dir (str_int sid) fs (faces_dir e))" and ne: "dir_samples fs' \<noteq> []"
      for nm fs'
    proof -
      from m set_set_dir [of "str_int sid" fs "faces_dir e"]
      have "(nm, Dir fs') = (str_int sid, Dir fs) \<or> (nm, Dir fs') \<in> set (faces_dir e)" by blast
      then show ?thesis
      proof
        assume "(nm, Dir fs') = (str_int sid, Dir fs)"
        then show ?thesis by (simp add: py_int_str_int)
      next
        assume "(nm, Dir fs') \<in> set (faces_dir e)"
        with assms(2) [unfolded named_by_int_iff] ne show ?thesis by blast
      qed
    qed
    then show ?thesis
      unfolding named_by_int_iff f by blast
  qed
qed

lemma named_by_int_faces_dir:
  "faces_dir e' = faces_dir e \<Longrightarrow> named_by_int e' = named_by_int e"
  by (simp add: named_by_int_def dataset_samples_def)

lemma named_by_int_empty: "faces_dir e = [] \<Longrightarrow> named_by_int e"
  by (simp add: named_by_int_def dataset_samples_def)

lemma train_or_update_model_named_by_int:
  "train_or_update_model e = (r, e') \<Longrightarrow> named_by_int e' = named_by_int e"
  by (rule named_by_int_faces_dir)
     (auto simp: train_or_update_model_def split: sum.splits prod.splits if_splits)

lemma recognize_once_named_by_int:
  "recognize_once predict th e cam = Some (r, e') \<Longrightarrow> named_by_int e' = named_by_int e"
  by (rule named_by_int_faces_dir)
     (auto simp: recognize_once_def ensure_model_loaded_def train_or_update_model_def
           split: sum.splits prod.splits if_splits option.splits bool.splits)

end
